theory Spec2Isabelle
  imports Complex_Main
begin

section \<open>The matrix-multiplication benchmark \<open>src/mm/main.c\<close>\<close>

text \<open>
  The program is embedded sequentially: an OpenMP \<open>parallel\<close>/\<open>for\<close> region is the loop it
  annotates, run in index order (what the compiler produces when the pragmas are
  ignored). The scheduling of iterations over threads is not modelled.

  A \<open>double\<close> is an element of a type \<open>'a\<close> with the operations a function uses, given
  by its sort: the kernels only use \<open>+\<close>, \<open>*\<close> and the comparison with \<open>0\<close>, and what is
  proved of them assumes no law of arithmetic, so it holds of the rounded arithmetic of
  IEEE doubles as of any other. The initialisers compute \<open>rand()/10.0\<close> in a field.

  An \<open>int\<close> loop counter or size that is never negative is a \<open>nat\<close>. The one product
  that can leave the range of \<open>int\<close> before anything else does is the \<open>n*n\<close> of
  \<open>matrix_create\<close> and \<open>sparsematrix_create\<close>, and there the model stops: the behaviour
  of the C program is undefined. Once the six matrices are created, \<open>(i)*n + (j)\<close> is
  below \<open>n*n\<close> and in range.
\<close>

subsection \<open>Memory and the outside world\<close>

text \<open>What \<open>printf\<close> writes: the usage line, or a timing line \<open>"<label>: %lf\n"\<close>
  with the label and the number printed.\<close>

datatype 'a out = Usage_line | Timing_line string 'a

text \<open>The calls into the profiling library (\<open>profile.h\<close>, not part of the program).\<close>

datatype profile_call = Profile_setup nat | Profile_start | Profile_end | Profile_dump

text \<open>
  The state of the process: memory as a map from cell addresses to doubles (one address
  per \<open>double\<close>, so pointer arithmetic on a \<open>double *\<close> is addition), how many times
  \<open>rand\<close>, \<open>omp_get_wtime\<close> and \<open>malloc\<close> have been called, what has been printed,
  and the calls made to the profiling library, both oldest first.
\<close>

record 'a machine =
  mem :: "nat \<Rightarrow> 'a"
  rand_calls :: nat
  wtime_calls :: nat
  malloc_calls :: nat
  stdout :: "'a out list"
  profile :: "profile_call list"

text \<open>
  The outside world: the value of the \<open>k\<close>-th call of \<open>rand\<close> (an \<open>int\<close> between \<open>0\<close>
  and \<open>RAND_MAX\<close>, so a \<open>nat\<close>), of \<open>omp_get_wtime\<close>, and of \<open>malloc\<close> for the number
  of cells asked for (\<open>None\<close> is \<open>NULL\<close>, otherwise the address of the block), and
  \<open>omp_get_num_procs()\<close>.
\<close>

record 'a world =
  rand_seq :: "nat \<Rightarrow> nat"
  wtime_seq :: "nat \<Rightarrow> 'a"
  malloc_seq :: "nat \<Rightarrow> nat \<Rightarrow> nat option"
  num_procs :: nat

definition load :: "'a machine \<Rightarrow> nat \<Rightarrow> 'a" where
  "load st p = mem st p"

definition store :: "nat \<Rightarrow> 'a \<Rightarrow> 'a machine \<Rightarrow> 'a machine" where
  "store p v st = st\<lparr>mem := (mem st)(p := v)\<rparr>"

definition profile_log :: "profile_call \<Rightarrow> 'a machine \<Rightarrow> 'a machine" where
  "profile_log e st = st\<lparr>profile := profile st @ [e]\<rparr>"

definition printf :: "'a out \<Rightarrow> 'a machine \<Rightarrow> 'a machine" where
  "printf l st = st\<lparr>stdout := stdout st @ [l]\<rparr>"

text \<open>\<open>for (int i = lo; i < n; i++) body\<close>\<close>

function for_loop :: "nat \<Rightarrow> nat \<Rightarrow> (nat \<Rightarrow> 's \<Rightarrow> 's) \<Rightarrow> 's \<Rightarrow> 's" where
  "for_loop i n body s = (if i < n then for_loop (Suc i) n body (body i s) else s)"
  by pat_completeness auto
termination
  by (relation "measure (\<lambda>(i, n, body, s). n - i)") auto

declare for_loop.simps [simp del]

subsection \<open>The kernels\<close>

text \<open>\<open>#define MATRIX(m, i, j) m[(i)*n + (j)]\<close>: the address of that cell.\<close>

definition MATRIX :: "nat \<Rightarrow> nat \<Rightarrow> nat \<Rightarrow> nat \<Rightarrow> nat" where
  "MATRIX n m i j = m + (i * n + j)"

definition matrix_mult1 ::
  "nat \<Rightarrow> nat \<Rightarrow> nat \<Rightarrow> nat \<Rightarrow> ('a::{plus,times}) machine \<Rightarrow> 'a machine" where
  "matrix_mult1 c a b n st =
     profile_log Profile_dump
       (profile_log Profile_end
         (for_loop 0 n (\<lambda>i.
            for_loop 0 n (\<lambda>j.
              for_loop 0 n (\<lambda>k s.
                store (MATRIX n c i j)
                  (load s (MATRIX n c i j) + load s (MATRIX n a i k) * load s (MATRIX n b k j)) s)))
           (profile_log Profile_start st)))"

definition matrix_mult2 ::
  "nat \<Rightarrow> nat \<Rightarrow> nat \<Rightarrow> nat \<Rightarrow> ('a::{plus,times}) machine \<Rightarrow> 'a machine" where
  "matrix_mult2 c a b n st =
     profile_log Profile_dump
       (for_loop 0 n (\<lambda>i s0.
          profile_log Profile_end
            (for_loop 0 n (\<lambda>j.
               for_loop 0 n (\<lambda>k s.
                 store (MATRIX n c i j)
                   (load s (MATRIX n c i j) + load s (MATRIX n a i k) * load s (MATRIX n b k j)) s))
              (profile_log Profile_start s0)))
         st)"

definition sparsematrix_mult ::
  "nat \<Rightarrow> nat \<Rightarrow> nat \<Rightarrow> nat \<Rightarrow> ('a::{plus,times,zero}) machine \<Rightarrow> 'a machine" where
  "sparsematrix_mult c a b n st =
     profile_log Profile_dump
       (profile_log Profile_end
         (for_loop 0 n (\<lambda>i.
            for_loop 0 n (\<lambda>j.
              for_loop 0 n (\<lambda>k s.
                if load s (MATRIX n a i k) \<noteq> 0
                then store (MATRIX n c i j)
                  (load s (MATRIX n c i j) + load s (MATRIX n a i k) * load s (MATRIX n b k j)) s
                else s)))
           (profile_log Profile_start st)))"

text \<open>The cells of an \<open>n\<times>n\<close> matrix at address \<open>m\<close>.\<close>

definition block :: "nat \<Rightarrow> nat \<Rightarrow> nat set" where
  "block n m = {m ..< m + n * n}"

text \<open>
  What the innermost loop of a dense kernel makes of the value \<open>v\<close> of \<open>c[i][j]\<close>: the
  products \<open>a[i][k] * b[k][j]\<close>, read from the memory of \<open>st\<close>, are added to it one after
  the other, for \<open>k = 0, ..., n - 1\<close>.
\<close>

definition accumulate ::
  "('a::{plus,times}) machine \<Rightarrow> nat \<Rightarrow> nat \<Rightarrow> nat \<Rightarrow> nat \<Rightarrow> nat \<Rightarrow> 'a \<Rightarrow> 'a" where
  "accumulate st a b n i j v =
     foldl (\<lambda>v k. v + load st (MATRIX n a i k) * load st (MATRIX n b k j)) v [0..<n]"

text \<open>The same for the sparse kernel, which leaves out the products with \<open>a[i][k] == 0\<close>.\<close>

definition accumulate_sparse ::
  "('a::{plus,times,zero}) machine \<Rightarrow> nat \<Rightarrow> nat \<Rightarrow> nat \<Rightarrow> nat \<Rightarrow> nat \<Rightarrow> 'a \<Rightarrow> 'a" where
  "accumulate_sparse st a b n i j v =
     foldl (\<lambda>v k. if load st (MATRIX n a i k) \<noteq> 0
                   then v + load st (MATRIX n a i k) * load st (MATRIX n b k j) else v) v [0..<n]"

subsection \<open>Constants and library calls\<close>

definition NITERATIONS :: nat where
  "NITERATIONS = 5"

definition SPARSE_FACTOR :: nat where
  "SPARSE_FACTOR = 80"

datatype exit_status = EXIT_SUCCESS | EXIT_FAILURE

text \<open>The largest \<open>int\<close>, for an \<open>int\<close> of 32 bits.\<close>

definition INT_MAX :: nat where
  "INT_MAX = 2147483647"

text \<open>
  How the process ends: \<open>exit\<close> (or the return from \<open>main\<close>) with a status, \<open>abort\<close>
  from a failed \<open>assert\<close> (\<open>NDEBUG\<close> is not defined), or \<open>Undefined\<close> where the C standard
  leaves the behaviour undefined, here a product of two \<open>int\<close> out of the range of
  \<open>int\<close>. What the process does from there is not modelled (on the usual platform the
  product wraps around, the block is too small for the matrix, and the process is
  killed while it writes past it).
\<close>

datatype halt = Exit exit_status | Abort | Undefined

definition rand :: "'a world \<Rightarrow> 'a machine \<Rightarrow> nat \<times> 'a machine" where
  "rand w st = (rand_seq w (rand_calls st), st\<lparr>rand_calls := Suc (rand_calls st)\<rparr>)"

definition omp_get_wtime :: "'a world \<Rightarrow> 'a machine \<Rightarrow> 'a \<times> 'a machine" where
  "omp_get_wtime w st = (wtime_seq w (wtime_calls st), st\<lparr>wtime_calls := Suc (wtime_calls st)\<rparr>)"

text \<open>\<open>malloc(len * sizeof(double))\<close>: the world chooses a block of \<open>len\<close> cells, or
  \<open>NULL\<close>.\<close>

definition malloc :: "'a world \<Rightarrow> nat \<Rightarrow> 'a machine \<Rightarrow> nat option \<times> 'a machine" where
  "malloc w len st =
     (malloc_seq w (malloc_calls st) len, st\<lparr>malloc_calls := Suc (malloc_calls st)\<rparr>)"

text \<open>\<open>memset(m, 0, len * sizeof(double))\<close>: the all-zero bytes of a \<open>double\<close> are \<open>0.0\<close>.\<close>

definition memset :: "nat \<Rightarrow> 'a \<Rightarrow> nat \<Rightarrow> 'a machine \<Rightarrow> 'a machine" where
  "memset m v len st = st\<lparr>mem := (\<lambda>p. if m \<le> p \<and> p < m + len then v else mem st p)\<rparr>"

text \<open>\<open>free\<close>: the model keeps no table of live blocks, so nothing changes.\<close>

definition free :: "nat \<Rightarrow> 'a machine \<Rightarrow> 'a machine" where
  "free m st = st"

text \<open>
  \<open>atoi\<close>, from its description in the C standard (\<open>strtol\<close> in base 10): white space is
  skipped, then an optional sign and the longest run of decimal digits are read; with no
  digit the value is \<open>0\<close>. A value outside the range of \<open>int\<close> is undefined behaviour in
  C; here the value is the unbounded integer.
\<close>

definition isspace :: "char \<Rightarrow> bool" where
  "isspace ch = (ch \<in> set [CHR '' '', CHR 0x09, CHR 0x0A, CHR 0x0B, CHR 0x0C, CHR 0x0D])"

definition isdigit :: "char \<Rightarrow> bool" where
  "isdigit ch = (48 \<le> (of_char ch :: nat) \<and> (of_char ch :: nat) \<le> 57)"

fun digits :: "int \<Rightarrow> string \<Rightarrow> int" where
  "digits acc [] = acc"
| "digits acc (ch # cs) =
     (if isdigit ch then digits (10 * acc + (int (of_char ch) - 48)) cs else acc)"

definition atoi :: "string \<Rightarrow> int" where
  "atoi s =
     (case dropWhile isspace s of
        [] \<Rightarrow> 0
      | ch # cs \<Rightarrow>
          if ch = CHR ''-'' then - digits 0 cs
          else if ch = CHR ''+'' then digits 0 cs
          else digits 0 (ch # cs))"

subsection \<open>Creating and filling matrices\<close>

definition usage :: "'a machine \<Rightarrow> halt \<times> 'a machine" where
  "usage st = (Exit EXIT_SUCCESS, printf Usage_line st)"

text \<open>\<open>n*n\<close> is a product of two \<open>int\<close>: beyond \<open>INT_MAX\<close> it overflows. Its product
  with \<open>sizeof(double)\<close> is a \<open>size_t\<close>, of 64 bits, and stays in range.\<close>

definition matrix_create ::
  "('a::zero) world \<Rightarrow> nat \<Rightarrow> 'a machine \<Rightarrow> (halt \<times> 'a machine) + (nat \<times> 'a machine)" where
  "matrix_create w n st =
     (if INT_MAX < n * n then Inl (Undefined, st)
      else
        case malloc w (n * n) st of
          (None, st1) \<Rightarrow> Inl (Abort, st1)
        | (Some m, st1) \<Rightarrow> Inr (m, memset m 0 (n * n) st1))"

definition matrix_init :: "('a::field) world \<Rightarrow> nat \<Rightarrow> nat \<Rightarrow> 'a machine \<Rightarrow> 'a machine" where
  "matrix_init w m n st =
     for_loop 0 n (\<lambda>i.
       for_loop 0 n (\<lambda>j s.
         case rand w s of (r, s1) \<Rightarrow> store (MATRIX n m i j) (of_nat r / 10) s1))
       st"

definition sparsematrix_create ::
  "('a::zero) world \<Rightarrow> nat \<Rightarrow> 'a machine \<Rightarrow> (halt \<times> 'a machine) + (nat \<times> 'a machine)" where
  "sparsematrix_create w n st =
     (if INT_MAX < n * n then Inl (Undefined, st)
      else
        case malloc w (n * n) st of
          (None, st1) \<Rightarrow> Inl (Abort, st1)
        | (Some m, st1) \<Rightarrow> Inr (m, memset m 0 (n * n) st1))"

text \<open>The body of the inner loop of \<open>sparsematrix_init\<close>, for the cell \<open>(i, j)\<close>. The
  value of \<open>rand()\<close> is never negative, so C's \<open>%\<close> is \<open>mod\<close>, and \<open>n/2\<close> is \<open>div\<close>.\<close>

definition sparsematrix_init_cell ::
  "('a::field) world \<Rightarrow> nat \<Rightarrow> nat \<Rightarrow> nat \<Rightarrow> nat \<Rightarrow> 'a machine \<Rightarrow> 'a machine" where
  "sparsematrix_init_cell w m n i j s =
     (case (if i > n div 2
            then (case rand w s of (d, s1) \<Rightarrow> (if d mod 100 \<le> SPARSE_FACTOR then True else False, s1))
            else (False, s))
      of (zero, s2) \<Rightarrow>
        if zero then store (MATRIX n m i j) 0 s2
        else (case rand w s2 of (r, s3) \<Rightarrow> store (MATRIX n m i j) (of_nat r / 10) s3))"

definition sparsematrix_init :: "('a::field) world \<Rightarrow> nat \<Rightarrow> nat \<Rightarrow> 'a machine \<Rightarrow> 'a machine" where
  "sparsematrix_init w m n st =
     for_loop 0 n (\<lambda>i. for_loop 0 n (\<lambda>j. sparsematrix_init_cell w m n i j)) st"

subsection \<open>The driver\<close>

text \<open>Running one step after another, stopping where the process halts.\<close>

definition and_then ::
  "('e + ('r \<times> 's)) \<Rightarrow> ('r \<Rightarrow> 's \<Rightarrow> 'e + 't) \<Rightarrow> 'e + 't" where
  "and_then x f = (case x of Inl e \<Rightarrow> Inl e | Inr (r, s) \<Rightarrow> f r s)"

text \<open>Lines 234 to 239 of \<open>main\<close>: the six matrices, in the order \<open>a1\<close>, \<open>b\<close>, \<open>c1\<close>,
  \<open>c2\<close>, \<open>c3\<close>, \<open>a2\<close>. The result lists them as \<open>(a1, a2, b, c1, c2, c3)\<close>.\<close>

definition main_setup ::
  "('a::field) world \<Rightarrow> nat \<Rightarrow> 'a machine \<Rightarrow>
     (halt \<times> 'a machine) + ((nat \<times> nat \<times> nat \<times> nat \<times> nat \<times> nat) \<times> 'a machine)" where
  "main_setup w n st =
     and_then (matrix_create w n st) (\<lambda>a1 s.
     and_then (matrix_create w n (matrix_init w a1 n s)) (\<lambda>b s.
     and_then (matrix_create w n (matrix_init w b n s)) (\<lambda>c1 s.
     and_then (matrix_create w n (matrix_init w c1 n s)) (\<lambda>c2 s.
     and_then (matrix_create w n (matrix_init w c2 n s)) (\<lambda>c3 s.
     and_then (sparsematrix_create w n (matrix_init w c3 n s)) (\<lambda>a2 s.
     Inr ((a1, a2, b, c1, c2, c3), sparsematrix_init w a2 n s)))))))"

text \<open>Lines 241 to 269: the three benchmark loops. \<open>it <= NITERATIONS\<close> is
  \<open>it < NITERATIONS + 1\<close>.\<close>

definition main_benchmarks ::
  "('a::field) world \<Rightarrow> nat \<times> nat \<times> nat \<times> nat \<times> nat \<times> nat \<Rightarrow> nat \<Rightarrow> 'a machine \<Rightarrow> 'a machine" where
  "main_benchmarks w ms n st =
     (case ms of (a1, a2, b, c1, c2, c3) \<Rightarrow>
        for_loop 0 (Suc NITERATIONS) (\<lambda>it s.
          case omp_get_wtime w s of (start, s1) \<Rightarrow>
          case omp_get_wtime w (sparsematrix_mult c3 a2 b n s1) of (endt, s2) \<Rightarrow>
            if it \<noteq> 0 then printf (Timing_line ''sparsemult'' (endt - start)) s2 else s2)
       (for_loop 0 (Suc NITERATIONS) (\<lambda>it s.
          case omp_get_wtime w s of (start, s1) \<Rightarrow>
          case omp_get_wtime w (matrix_mult2 c2 a1 b n s1) of (endt, s2) \<Rightarrow>
            if it \<noteq> 0 then printf (Timing_line ''mult2'' (endt - start)) s2 else s2)
       (for_loop 0 (Suc NITERATIONS) (\<lambda>it s.
          case omp_get_wtime w s of (start, s1) \<Rightarrow>
          case omp_get_wtime w (matrix_mult1 c1 a1 b n s1) of (endt, s2) \<Rightarrow>
            if it \<noteq> 0 then printf (Timing_line ''mult1'' (endt - start)) s2 else s2)
        st)))"

text \<open>The machine when \<open>main\<close> starts, with memory \<open>h\<close>.\<close>

definition initial :: "(nat \<Rightarrow> 'a) \<Rightarrow> 'a machine" where
  "initial h = \<lparr>mem = h, rand_calls = 0, wtime_calls = 0, malloc_calls = 0,
     stdout = [], profile = []\<rparr>"

text \<open>\<open>main\<close>, with \<open>argc = length argv\<close>.\<close>

definition main :: "('a::field) world \<Rightarrow> string list \<Rightarrow> (nat \<Rightarrow> 'a) \<Rightarrow> halt \<times> 'a machine" where
  "main w argv h =
     (if length argv < 2 then usage (initial h)
      else
        let n = atoi (argv ! 1) in
        if \<not> 0 < n then (Abort, initial h)
        else
          case main_setup w (nat n) (profile_log (Profile_setup (num_procs w)) (initial h)) of
            Inl stop \<Rightarrow> stop
          | Inr ((a1, a2, b, c1, c2, c3), s) \<Rightarrow>
              (Exit EXIT_FAILURE,
               free c3 (free c2 (free c1 (free b (free a2 (free a1
                 (main_benchmarks w (a1, a2, b, c1, c2, c3) (nat n) s))))))))"

subsection \<open>What a kernel has done to the rows before \<open>m\<close>\<close>

text \<open>
  \<open>U s i j v\<close> is what a kernel makes of the value \<open>v\<close> of \<open>c[i][j]\<close> with the operands as
  they are in \<open>s\<close>. The cells \<open>j < m\<close> of row \<open>i\<close> of \<open>c\<close> hold what \<open>U\<close> makes of their
  value in \<open>s\<close>, and every other cell is as in \<open>s\<close>.
\<close>

definition row_done ::
  "('a machine \<Rightarrow> nat \<Rightarrow> nat \<Rightarrow> 'a \<Rightarrow> 'a) \<Rightarrow> 'a machine \<Rightarrow> 'a machine \<Rightarrow> nat \<Rightarrow> nat \<Rightarrow> nat \<Rightarrow> nat \<Rightarrow> bool" where
  "row_done U s t c n i m \<longleftrightarrow>
     (\<forall>j<m. load t (MATRIX n c i j) = U s i j (load s (MATRIX n c i j))) \<and>
     (\<forall>p. (\<forall>j<m. p \<noteq> MATRIX n c i j) \<longrightarrow> load t p = load s p)"

text \<open>The same for the rows \<open>i < m\<close> of \<open>c\<close>.\<close>

definition rows_done ::
  "('a machine \<Rightarrow> nat \<Rightarrow> nat \<Rightarrow> 'a \<Rightarrow> 'a) \<Rightarrow> 'a machine \<Rightarrow> 'a machine \<Rightarrow> nat \<Rightarrow> nat \<Rightarrow> nat \<Rightarrow> bool" where
  "rows_done U s t c n m \<longleftrightarrow>
     (\<forall>i<m. \<forall>j<n. load t (MATRIX n c i j) = U s i j (load s (MATRIX n c i j))) \<and>
     (\<forall>p. (\<forall>i<m. \<forall>j<n. p \<noteq> MATRIX n c i j) \<longrightarrow> load t p = load s p)"

text \<open>\<open>U\<close> reads the cells outside the block of \<open>c\<close> only.\<close>

definition reads_outside ::
  "('a machine \<Rightarrow> nat \<Rightarrow> nat \<Rightarrow> 'a \<Rightarrow> 'a) \<Rightarrow> nat \<Rightarrow> nat \<Rightarrow> bool" where
  "reads_outside U c n \<longleftrightarrow>
     (\<forall>s t i j v. i < n \<longrightarrow> j < n \<longrightarrow> (\<forall>p. p \<notin> block n c \<longrightarrow> load s p = load t p) \<longrightarrow>
        U s i j v = U t i j v)"

subsection \<open>What an initialiser has done to the rows before \<open>k\<close>\<close>

text \<open>The value \<open>rand()/10.0\<close> of the \<open>k\<close>-th call of \<open>rand\<close>.\<close>

definition drawn :: "('a::field) world \<Rightarrow> nat \<Rightarrow> 'a" where
  "drawn w k = of_nat (rand_seq w k) / 10"

text \<open>The cells \<open>j < k\<close> of row \<open>i\<close> of \<open>m\<close> hold the next \<open>k\<close> draws in order, one draw
  each, and every other cell is as in \<open>s\<close>.\<close>

definition row_filled ::
  "('a::field) world \<Rightarrow> nat \<Rightarrow> nat \<Rightarrow> nat \<Rightarrow> nat \<Rightarrow> 'a machine \<Rightarrow> 'a machine \<Rightarrow> bool" where
  "row_filled w n m i k s t \<longleftrightarrow>
     rand_calls t = rand_calls s + k \<and>
     (\<forall>j<k. load t (MATRIX n m i j) = drawn w (rand_calls s + j)) \<and>
     (\<forall>p. (\<forall>j<k. p \<noteq> MATRIX n m i j) \<longrightarrow> load t p = load s p)"

text \<open>The same for the rows \<open>i < k\<close> of \<open>m\<close>.\<close>

definition rows_filled ::
  "('a::field) world \<Rightarrow> nat \<Rightarrow> nat \<Rightarrow> nat \<Rightarrow> 'a machine \<Rightarrow> 'a machine \<Rightarrow> bool" where
  "rows_filled w n m k s t \<longleftrightarrow>
     rand_calls t = rand_calls s + k * n \<and>
     (\<forall>i<k. \<forall>j<n. load t (MATRIX n m i j) = drawn w (rand_calls s + (i * n + j))) \<and>
     (\<forall>p. (\<forall>i<k. \<forall>j<n. p \<noteq> MATRIX n m i j) \<longrightarrow> load t p = load s p)"

text \<open>For \<open>sparsematrix_init\<close>: the rows \<open>i \<le> n/2\<close> among the first \<open>k\<close> hold one draw per
  cell in order, and no other draw has been made while only such rows were filled.\<close>

definition dense_rows_filled ::
  "('a::field) world \<Rightarrow> nat \<Rightarrow> nat \<Rightarrow> nat \<Rightarrow> 'a machine \<Rightarrow> 'a machine \<Rightarrow> bool" where
  "dense_rows_filled w n m k s t \<longleftrightarrow>
     (k \<le> Suc (n div 2) \<longrightarrow> rand_calls t = rand_calls s + k * n) \<and>
     (\<forall>i<k. i \<le> n div 2 \<longrightarrow> (\<forall>j<n. load t (MATRIX n m i j) = drawn w (rand_calls s + (i * n + j))))"

subsection \<open>The driver, step by step\<close>

text \<open>The machine after a call of \<open>matrix_create\<close> (or \<open>sparsematrix_create\<close>) that got
  the block \<open>m\<close>.\<close>

definition created :: "nat \<Rightarrow> nat \<Rightarrow> ('a::zero) machine \<Rightarrow> 'a machine" where
  "created m n s = memset m 0 (n * n) (s\<lparr>malloc_calls := Suc (malloc_calls s)\<rparr>)"

text \<open>The machine after \<open>main_setup\<close>, when \<open>malloc\<close> returned the blocks \<open>M 0\<close>, ...,
  \<open>M 5\<close> in this order.\<close>

definition setup_state :: "('a::field) world \<Rightarrow> nat \<Rightarrow> (nat \<Rightarrow> nat) \<Rightarrow> 'a machine \<Rightarrow> 'a machine" where
  "setup_state w n M st =
     sparsematrix_init w (M 5) n (created (M 5) n
       (matrix_init w (M 4) n (created (M 4) n
         (matrix_init w (M 3) n (created (M 3) n
           (matrix_init w (M 2) n (created (M 2) n
             (matrix_init w (M 1) n (created (M 1) n
               (matrix_init w (M 0) n (created (M 0) n st)))))))))))"

text \<open>The lines a benchmark loop of \<open>m\<close> iterations prints when it starts at the
  \<open>t\<close>-th reading of the clock: one for each iteration but the first, with the
  difference of the two readings around the kernel.\<close>

definition timing_lines :: "('a::minus) world \<Rightarrow> string \<Rightarrow> nat \<Rightarrow> nat \<Rightarrow> 'a out list" where
  "timing_lines w label t m =
     map (\<lambda>it. Timing_line label (wtime_seq w (t + 2 * it + 1) - wtime_seq w (t + 2 * it))) [1..<m]"

text \<open>A machine with another clock counter, another output, or both.\<close>

definition aside :: "nat option \<Rightarrow> 'a out list option \<Rightarrow> 'a machine \<Rightarrow> 'a machine" where
  "aside x y s = (case y of None \<Rightarrow> (case x of None \<Rightarrow> s | Some k \<Rightarrow> s\<lparr>wtime_calls := k\<rparr>)
     | Some l \<Rightarrow> (case x of None \<Rightarrow> s\<lparr>stdout := l\<rparr> | Some k \<Rightarrow> s\<lparr>wtime_calls := k, stdout := l\<rparr>))"

subsection \<open>A concrete machine\<close>

text \<open>Memory where the cell at address \<open>p\<close> holds \<open>p\<close>, and three \<open>2\<times>2\<close> matrices in it:
  \<open>c\<close> at 0, \<open>a\<close> at 4 and \<open>b\<close> at 8.\<close>

definition counting :: "real machine" where
  "counting = initial (\<lambda>p. real p)"

text \<open>A world where \<open>rand\<close> returns \<open>f k\<close> at its \<open>k\<close>-th call, the clock reads \<open>k * k\<close> at
  its \<open>k\<close>-th reading, and \<open>malloc\<close> never fails: the \<open>k\<close>-th block, of \<open>len\<close> cells, is at
  \<open>k * len\<close>.\<close>

definition world_of :: "(nat \<Rightarrow> nat) \<Rightarrow> real world" where
  "world_of f = \<lparr>rand_seq = f, wtime_seq = (\<lambda>k. real (k * k)),
     malloc_seq = (\<lambda>k len. Some (k * len)), num_procs = 1\<rparr>"

subsection \<open>Infinities and NaN\<close>

text \<open>
  The values of a \<open>double\<close> that a field lacks, with the rules of IEEE arithmetic for
  them: the sum of the two infinities and the product of zero and an infinity are NaN,
  and NaN absorbs. The finite values are the real numbers and their arithmetic is
  exact: rounding, overflow and the sign of zero are not part of this type. It serves
  to run the kernels on \<open>0\<close>, \<open>1\<close> and \<open>+inf\<close>, where IEEE arithmetic does not round.
\<close>

datatype ieee = Fin real | PInf | NInf | NaN

instantiation ieee :: "{zero,plus,times}"
begin

definition zero_ieee :: ieee where
  "zero_ieee = Fin 0"

fun plus_ieee :: "ieee \<Rightarrow> ieee \<Rightarrow> ieee" where
  "plus_ieee (Fin x) (Fin y) = Fin (x + y)"
| "plus_ieee (Fin x) PInf = PInf"
| "plus_ieee (Fin x) NInf = NInf"
| "plus_ieee PInf (Fin y) = PInf"
| "plus_ieee NInf (Fin y) = NInf"
| "plus_ieee PInf PInf = PInf"
| "plus_ieee NInf NInf = NInf"
| "plus_ieee _ _ = NaN"

fun times_ieee :: "ieee \<Rightarrow> ieee \<Rightarrow> ieee" where
  "times_ieee (Fin x) (Fin y) = Fin (x * y)"
| "times_ieee (Fin x) PInf = (if x = 0 then NaN else if 0 < x then PInf else NInf)"
| "times_ieee (Fin x) NInf = (if x = 0 then NaN else if 0 < x then NInf else PInf)"
| "times_ieee PInf (Fin y) = (if y = 0 then NaN else if 0 < y then PInf else NInf)"
| "times_ieee NInf (Fin y) = (if y = 0 then NaN else if 0 < y then NInf else PInf)"
| "times_ieee PInf PInf = PInf"
| "times_ieee NInf NInf = PInf"
| "times_ieee PInf NInf = NInf"
| "times_ieee NInf PInf = NInf"
| "times_ieee _ _ = NaN"

instance ..

end

text \<open>Three \<open>1\<times>1\<close> matrices, \<open>c\<close> at 0, \<open>a\<close> at 1 and \<open>b\<close> at 2, holding \<open>x\<close>, \<open>y\<close> and \<open>z\<close>.\<close>

definition cells :: "ieee \<Rightarrow> ieee \<Rightarrow> ieee \<Rightarrow> ieee machine" where
  "cells x y z = initial (\<lambda>p. if p = 0 then x else if p = 1 then y else z)"

section \<open>Loops\<close>

lemma for_loop_stop [simp]: "n \<le> i \<Longrightarrow> for_loop i n body s = s"
  by (simp add: for_loop.simps)

lemma for_loop_step: "i < n \<Longrightarrow> for_loop i n body s = for_loop (Suc i) n body (body i s)"
  by (subst for_loop.simps) simp

lemma for_loop_last: "i \<le> n \<Longrightarrow> for_loop i (Suc n) body s = body n (for_loop i n body s)"
proof (induction i n body s rule: for_loop.induct)
  case (1 i n body s)
  show ?case
  proof (cases "i < n")
    case True
    with "1" show ?thesis by (simp add: for_loop_step)
  next
    case False
    with "1.prems" have "i = n" by simp
    then show ?thesis by (simp add: for_loop_step)
  qed
qed

text \<open>A loop invariant: it holds before the loop and every iteration keeps it.\<close>

lemma for_loop_invariant:
  assumes "P 0 s" and "\<And>i t. i < n \<Longrightarrow> P i t \<Longrightarrow> P (Suc i) (body i t)"
  shows "P n (for_loop 0 n body s)"
proof -
  have "m \<le> n \<Longrightarrow> P m (for_loop 0 m body s)" for m
  proof (induction m)
    case 0
    then show ?case using assms(1) by simp
  next
    case (Suc m)
    then show ?case using assms(2) [of m] by (simp add: for_loop_last)
  qed
  then show ?thesis by simp
qed

section \<open>Memory\<close>

lemma load_store [simp]: "load (store p v s) q = (if q = p then v else load s q)"
  by (simp add: load_def store_def)

lemma store_store [simp]: "store p v (store p w s) = store p v s"
  by (simp add: store_def)

lemma load_profile_log [simp]: "load (profile_log e s) p = load s p"
  by (simp add: load_def profile_log_def)

lemma for_loop_proj:
  assumes "\<And>i s. i < n \<Longrightarrow> g (body i s) = g s"
  shows "g (for_loop 0 n body s) = g s"
proof (rule for_loop_invariant [where P = "\<lambda>_ t. g t = g s"])
  show "g s = g s" by simp
next
  fix i t assume "i < n" "g t = g s"
  then show "g (body i t) = g s" using assms by simp
qed

lemma index_less: "i < n \<Longrightarrow> j < n \<Longrightarrow> i * n + j < n * (n::nat)"
proof -
  assume a: "i < n" "j < n"
  then have "i * n + j < i * n + n" by simp
  also have "\<dots> = Suc i * n" by simp
  also have "\<dots> \<le> n * n" using a(1) by (metis Suc_leI mult_le_mono1)
  finally show ?thesis .
qed

lemma index_inj:
  assumes "j < n" "j' < n" "i * n + j = i' * n + (j'::nat)"
  shows "i = i' \<and> j = j'"
proof -
  have "(j + i * n) div n = i" "(j' + i' * n) div n = i'" using assms by simp_all
  then have "i = i'" using assms(3) by (simp add: add.commute)
  then show ?thesis using assms(3) by simp
qed

lemma MATRIX_in_block: "i < n \<Longrightarrow> j < n \<Longrightarrow> MATRIX n m i j \<in> block n m"
  by (simp add: MATRIX_def block_def index_less)

lemma MATRIX_inj: "j < n \<Longrightarrow> j' < n \<Longrightarrow> MATRIX n m i j = MATRIX n m i' j' \<longleftrightarrow> i = i' \<and> j = j'"
  using index_inj [of j n j' i i'] by (auto simp: MATRIX_def)

lemma MATRIX_disjoint:
  "block n c \<inter> block n a = {} \<Longrightarrow> i < n \<Longrightarrow> j < n \<Longrightarrow> i' < n \<Longrightarrow> k < n \<Longrightarrow>
   MATRIX n a i' k \<noteq> MATRIX n c i j"
  using MATRIX_in_block [of i n j c] MATRIX_in_block [of i' n k a] by auto

section \<open>The loop nest of a kernel\<close>

lemma store_same [simp]: "store p (load s p) s = s"
  by (simp add: store_def load_def)

lemma cell_outside: "i < n \<Longrightarrow> j < n \<Longrightarrow> p \<notin> block n c \<Longrightarrow> p \<noteq> MATRIX n c i j"
  using MATRIX_in_block [of i n j c] by auto

text \<open>The innermost loop, whatever the arithmetic is.\<close>

lemma k_loop:
  fixes st :: "('a::{plus,times}) machine"
  assumes "\<And>k. k < n \<Longrightarrow> A k \<noteq> pc \<and> B k \<noteq> pc"
  shows "for_loop 0 n (\<lambda>k s. store pc (load s pc + load s (A k) * load s (B k)) s) st =
         store pc (foldl (\<lambda>v k. v + load st (A k) * load st (B k)) (load st pc) [0..<n]) st"
proof -
  let ?body = "\<lambda>k s. store pc (load s pc + load s (A k) * load s (B k)) s"
  have "m \<le> n \<Longrightarrow> for_loop 0 m ?body st =
      store pc (foldl (\<lambda>v k. v + load st (A k) * load st (B k)) (load st pc) [0..<m]) st" for m
  proof (induction m)
    case 0
    then show ?case by simp
  next
    case (Suc m)
    then show ?case using assms [of m] by (simp add: for_loop_last)
  qed
  then show ?thesis by simp
qed

lemma k_loop_sparse:
  fixes st :: "('a::{plus,times,zero}) machine"
  assumes "\<And>k. k < n \<Longrightarrow> A k \<noteq> pc \<and> B k \<noteq> pc"
  shows "for_loop 0 n (\<lambda>k s. if load s (A k) \<noteq> 0
            then store pc (load s pc + load s (A k) * load s (B k)) s else s) st =
         store pc (foldl (\<lambda>v k. if load st (A k) \<noteq> 0
            then v + load st (A k) * load st (B k) else v) (load st pc) [0..<n]) st"
proof -
  let ?body = "\<lambda>k s. if load s (A k) \<noteq> 0
            then store pc (load s pc + load s (A k) * load s (B k)) s else s"
  have "m \<le> n \<Longrightarrow> for_loop 0 m ?body st =
      store pc (foldl (\<lambda>v k. if load st (A k) \<noteq> 0
            then v + load st (A k) * load st (B k) else v) (load st pc) [0..<m]) st" for m
  proof (induction m)
    case 0
    then show ?case by simp
  next
    case (Suc m)
    then show ?case using assms [of m] by (simp add: for_loop_last)
  qed
  then show ?thesis by simp
qed

lemma cell_dense:
  fixes s :: "('a::{plus,times}) machine"
  assumes "block n c \<inter> block n a = {}" "block n c \<inter> block n b = {}" "i < n" "j < n"
  shows "load (for_loop 0 n (\<lambda>k s. store (MATRIX n c i j)
            (load s (MATRIX n c i j) + load s (MATRIX n a i k) * load s (MATRIX n b k j)) s) s) p =
         (if p = MATRIX n c i j then accumulate s a b n i j (load s p) else load s p)"
proof -
  have "\<And>k. k < n \<Longrightarrow> MATRIX n a i k \<noteq> MATRIX n c i j \<and> MATRIX n b k j \<noteq> MATRIX n c i j"
    using assms MATRIX_disjoint by metis
  then show ?thesis by (subst k_loop) (simp_all add: accumulate_def)
qed

lemma cell_sparse:
  fixes s :: "('a::{plus,times,zero}) machine"
  assumes "block n c \<inter> block n a = {}" "block n c \<inter> block n b = {}" "i < n" "j < n"
  shows "load (for_loop 0 n (\<lambda>k s. if load s (MATRIX n a i k) \<noteq> 0 then store (MATRIX n c i j)
            (load s (MATRIX n c i j) + load s (MATRIX n a i k) * load s (MATRIX n b k j)) s else s) s) p =
         (if p = MATRIX n c i j then accumulate_sparse s a b n i j (load s p) else load s p)"
proof -
  have "\<And>k. k < n \<Longrightarrow> MATRIX n a i k \<noteq> MATRIX n c i j \<and> MATRIX n b k j \<noteq> MATRIX n c i j"
    using assms MATRIX_disjoint by metis
  then show ?thesis by (subst k_loop_sparse) (simp_all add: accumulate_sparse_def)
qed

text \<open>What is accumulated depends on the operands only.\<close>

lemma accumulate_cong:
  fixes s t :: "('a::{plus,times}) machine"
  assumes "\<And>k. k < n \<Longrightarrow> load s (MATRIX n a i k) = load t (MATRIX n a i k)"
      and "\<And>k. k < n \<Longrightarrow> load s (MATRIX n b k j) = load t (MATRIX n b k j)"
  shows "accumulate s a b n i j v = accumulate t a b n i j v"
  unfolding accumulate_def using assms by (intro foldl_cong) simp_all

lemma accumulate_sparse_cong:
  fixes s t :: "('a::{plus,times,zero}) machine"
  assumes "\<And>k. k < n \<Longrightarrow> load s (MATRIX n a i k) = load t (MATRIX n a i k)"
      and "\<And>k. k < n \<Longrightarrow> load s (MATRIX n b k j) = load t (MATRIX n b k j)"
  shows "accumulate_sparse s a b n i j v = accumulate_sparse t a b n i j v"
  unfolding accumulate_sparse_def using assms by (intro foldl_cong) simp_all

lemma operands_outside:
  assumes "block n c \<inter> block n a = {}" and "block n c \<inter> block n b = {}"
      and "i < n" "j < n" "k < n" and "\<forall>p. p \<notin> block n c \<longrightarrow> load s p = load t p"
  shows "load s (MATRIX n a i k) = load t (MATRIX n a i k)"
    and "load s (MATRIX n b k j) = load t (MATRIX n b k j)"
proof -
  have "MATRIX n a i k \<notin> block n c" "MATRIX n b k j \<notin> block n c"
    using assms MATRIX_in_block [of i n k a] MATRIX_in_block [of k n j b] by auto
  then show "load s (MATRIX n a i k) = load t (MATRIX n a i k)"
    and "load s (MATRIX n b k j) = load t (MATRIX n b k j)"
    using assms(6) by simp_all
qed

lemma accumulate_reads_outside:
  assumes ca: "block n c \<inter> block n a = {}" and cb: "block n c \<inter> block n b = {}"
  shows "reads_outside (\<lambda>s :: ('a::{plus,times}) machine. accumulate s a b n) c n"
  unfolding reads_outside_def
proof (intro allI impI)
  fix i j v and s t :: "'a machine"
  assume h: "i < n" "j < n" "\<forall>p. p \<notin> block n c \<longrightarrow> load s p = load t p"
  show "accumulate s a b n i j v = accumulate t a b n i j v"
    by (rule accumulate_cong) (simp_all add: operands_outside [OF ca cb h(1,2) _ h(3)])
qed

lemma accumulate_sparse_reads_outside:
  assumes ca: "block n c \<inter> block n a = {}" and cb: "block n c \<inter> block n b = {}"
  shows "reads_outside (\<lambda>s :: ('a::{plus,times,zero}) machine. accumulate_sparse s a b n) c n"
  unfolding reads_outside_def
proof (intro allI impI)
  fix i j v and s t :: "'a machine"
  assume h: "i < n" "j < n" "\<forall>p. p \<notin> block n c \<longrightarrow> load s p = load t p"
  show "accumulate_sparse s a b n i j v = accumulate_sparse t a b n i j v"
    by (rule accumulate_sparse_cong) (simp_all add: operands_outside [OF ca cb h(1,2) _ h(3)])
qed

text \<open>The loop over the cells of a row, and the loop over the rows.\<close>

lemma row_loop:
  assumes cell: "\<And>j s p. j < n \<Longrightarrow> load (cbody j s) p =
             (if p = MATRIX n c i j then U s i j (load s p) else load s p)"
      and ro: "reads_outside U c n" and i: "i < n"
  shows "row_done U st (for_loop 0 n cbody st) c n i n"
proof (rule for_loop_invariant [where P = "\<lambda>m t. row_done U st t c n i m"])
  show "row_done U st st c n i 0" by (simp add: row_done_def)
next
  fix m t
  assume m: "m < n" and inv: "row_done U st t c n i m"
  have fresh: "\<forall>j<m. MATRIX n c i m \<noteq> MATRIX n c i j"
    using m by (simp add: MATRIX_inj)
  have keep: "load t p = load st p" if "\<forall>j<m. p \<noteq> MATRIX n c i j" for p
    using inv that by (simp add: row_done_def)
  have "load t p = load st p" if "p \<notin> block n c" for p
    using that m i by (intro keep) (auto simp: cell_outside)
  then have d: "U t i m v = U st i m v" for v
    using ro i m unfolding reads_outside_def by blast
  have new: "load (cbody m t) (MATRIX n c i m) = U st i m (load st (MATRIX n c i m))"
    using cell [OF m, of t "MATRIX n c i m"] keep [OF fresh] d by simp
  have old: "load (cbody m t) p = load t p" if "p \<noteq> MATRIX n c i m" for p
    using cell [OF m, of t p] that by simp
  show "row_done U st (cbody m t) c n i (Suc m)"
    unfolding row_done_def
  proof (intro conjI allI impI)
    fix j assume "j < Suc m"
    then consider "j = m" | "j < m" by linarith
    then show "load (cbody m t) (MATRIX n c i j) = U st i j (load st (MATRIX n c i j))"
    proof cases
      case 1
      then show ?thesis using new by simp
    next
      case 2
      then have "MATRIX n c i j \<noteq> MATRIX n c i m" using fresh by metis
      then show ?thesis using old inv 2 by (simp add: row_done_def)
    qed
  next
    fix p assume "\<forall>j<Suc m. p \<noteq> MATRIX n c i j"
    then show "load (cbody m t) p = load st p" using old keep by simp
  qed
qed

lemma matrix_loop:
  assumes row: "\<And>i s. i < n \<Longrightarrow> row_done U s (rbody i s) c n i n"
      and ro: "reads_outside U c n"
  shows "rows_done U st (for_loop 0 n rbody st) c n n"
proof (rule for_loop_invariant [where P = "\<lambda>m t. rows_done U st t c n m"])
  show "rows_done U st st c n 0" by (simp add: rows_done_def)
next
  fix m t
  assume m: "m < n" and inv: "rows_done U st t c n m"
  have keep: "load t p = load st p" if "\<forall>i<m. \<forall>j<n. p \<noteq> MATRIX n c i j" for p
    using inv that by (simp add: rows_done_def)
  have r: "row_done U t (rbody m t) c n m n" by (rule row [OF m])
  have "load t p = load st p" if "p \<notin> block n c" for p
    using that m by (intro keep) (auto simp: cell_outside)
  then have d: "U t m j v = U st m j v" if "j < n" for j v
    using ro m that unfolding reads_outside_def by blast
  show "rows_done U st (rbody m t) c n (Suc m)"
    unfolding rows_done_def
  proof (intro conjI allI impI)
    fix i j assume ij: "i < Suc m" "j < n"
    then consider "i = m" | "i < m" by linarith
    then show "load (rbody m t) (MATRIX n c i j) = U st i j (load st (MATRIX n c i j))"
    proof cases
      case 1
      have "load t (MATRIX n c m j) = load st (MATRIX n c m j)"
        using ij(2) by (intro keep) (auto simp: MATRIX_inj)
      then show ?thesis using r ij(2) d 1 by (simp add: row_done_def)
    next
      case 2
      have "\<forall>j'<n. MATRIX n c i j \<noteq> MATRIX n c m j'"
        using 2 ij(2) by (auto simp: MATRIX_inj)
      then have "load (rbody m t) (MATRIX n c i j) = load t (MATRIX n c i j)"
        using r by (simp add: row_done_def)
      then show ?thesis using inv 2 ij(2) by (simp add: rows_done_def)
    qed
  next
    fix p assume p: "\<forall>i<Suc m. \<forall>j<n. p \<noteq> MATRIX n c i j"
    then have "load (rbody m t) p = load t p" using r by (simp add: row_done_def)
    then show "load (rbody m t) p = load st p" using keep p by simp
  qed
qed

text \<open>The calls of the profiling library do not touch memory.\<close>

lemma row_done_profile:
  assumes "reads_outside U c n" and "i < n" and "m \<le> n"
  shows "row_done U (profile_log e s) t c n i m = row_done U s t c n i m"
    and "row_done U s (profile_log e' t) c n i m = row_done U s t c n i m"
proof -
  have "U (profile_log e s) i j v = U s i j v" if "j < n" for j v
    using assms(1,2) that unfolding reads_outside_def by (metis load_profile_log)
  then show "row_done U (profile_log e s) t c n i m = row_done U s t c n i m"
    using assms(3) by (auto simp: row_done_def)
  show "row_done U s (profile_log e' t) c n i m = row_done U s t c n i m"
    by (simp add: row_done_def)
qed

lemma rows_done_profile:
  assumes "reads_outside U c n"
  shows "rows_done U (profile_log e s) t c n n = rows_done U s t c n n"
    and "rows_done U s (profile_log e' t) c n n = rows_done U s t c n n"
proof -
  have "U (profile_log e s) i j v = U s i j v" if "i < n" "j < n" for i j v
    using assms that unfolding reads_outside_def by (metis load_profile_log)
  then show "rows_done U (profile_log e s) t c n n = rows_done U s t c n n"
    by (auto simp: rows_done_def)
  show "rows_done U s (profile_log e' t) c n n = rows_done U s t c n n"
    by (simp add: rows_done_def)
qed

text \<open>The three kernels.\<close>

lemma matrix_mult1_rows:
  fixes st :: "('a::{plus,times}) machine"
  assumes ca: "block n c \<inter> block n a = {}" and cb: "block n c \<inter> block n b = {}"
  shows "rows_done (\<lambda>s. accumulate s a b n) st (matrix_mult1 c a b n st) c n n"
proof -
  let ?s = "profile_log Profile_start st"
  note ro = accumulate_reads_outside [OF ca cb]
  have "rows_done (\<lambda>s. accumulate s a b n) ?s
        (for_loop 0 n (\<lambda>i. for_loop 0 n (\<lambda>j. for_loop 0 n (\<lambda>k s.
          store (MATRIX n c i j)
            (load s (MATRIX n c i j) + load s (MATRIX n a i k) * load s (MATRIX n b k j)) s))) ?s)
        c n n"
    by (intro matrix_loop row_loop cell_dense ca cb ro)
  then show ?thesis by (simp add: matrix_mult1_def rows_done_profile [OF ro])
qed

lemma matrix_mult2_rows:
  fixes st :: "('a::{plus,times}) machine"
  assumes ca: "block n c \<inter> block n a = {}" and cb: "block n c \<inter> block n b = {}"
  shows "rows_done (\<lambda>s. accumulate s a b n) st (matrix_mult2 c a b n st) c n n"
proof -
  note ro = accumulate_reads_outside [OF ca cb]
  have "row_done (\<lambda>s. accumulate s a b n) s
        (profile_log Profile_end (for_loop 0 n (\<lambda>j. for_loop 0 n (\<lambda>k s.
          store (MATRIX n c i j)
            (load s (MATRIX n c i j) + load s (MATRIX n a i k) * load s (MATRIX n b k j)) s))
          (profile_log Profile_start s))) c n i n" if i: "i < n" for i and s :: "'a machine"
  proof -
    let ?s = "profile_log Profile_start s"
    have "row_done (\<lambda>s. accumulate s a b n) ?s (for_loop 0 n (\<lambda>j. for_loop 0 n (\<lambda>k s.
          store (MATRIX n c i j)
            (load s (MATRIX n c i j) + load s (MATRIX n a i k) * load s (MATRIX n b k j)) s)) ?s)
          c n i n"
      using i by (intro row_loop cell_dense ca cb ro)
    then show ?thesis by (simp add: row_done_profile [OF ro i])
  qed
  then have "rows_done (\<lambda>s. accumulate s a b n) st
     (for_loop 0 n (\<lambda>i s0. profile_log Profile_end (for_loop 0 n (\<lambda>j. for_loop 0 n (\<lambda>k s.
          store (MATRIX n c i j)
            (load s (MATRIX n c i j) + load s (MATRIX n a i k) * load s (MATRIX n b k j)) s))
          (profile_log Profile_start s0))) st) c n n"
    by (intro matrix_loop ro)
  then show ?thesis by (simp add: matrix_mult2_def rows_done_profile [OF ro])
qed

lemma sparsematrix_mult_rows:
  fixes st :: "('a::{plus,times,zero}) machine"
  assumes ca: "block n c \<inter> block n a = {}" and cb: "block n c \<inter> block n b = {}"
  shows "rows_done (\<lambda>s. accumulate_sparse s a b n) st (sparsematrix_mult c a b n st) c n n"
proof -
  let ?s = "profile_log Profile_start st"
  note ro = accumulate_sparse_reads_outside [OF ca cb]
  have "rows_done (\<lambda>s. accumulate_sparse s a b n) ?s
        (for_loop 0 n (\<lambda>i. for_loop 0 n (\<lambda>j. for_loop 0 n (\<lambda>k s.
          if load s (MATRIX n a i k) \<noteq> 0 then
          store (MATRIX n c i j)
            (load s (MATRIX n c i j) + load s (MATRIX n a i k) * load s (MATRIX n b k j)) s else s))) ?s)
        c n n"
    by (intro matrix_loop row_loop cell_sparse ca cb ro)
  then show ?thesis by (simp add: sparsematrix_mult_def rows_done_profile [OF ro])
qed

text \<open>Calling a kernel again and again.\<close>

lemma rows_done_funpow:
  assumes K: "\<And>s. rows_done U s (K s) c n n" and ro: "reads_outside U c n"
  shows "(\<forall>i<n. \<forall>j<n. load ((K ^^ m) s) (MATRIX n c i j) =
            ((U s i j) ^^ m) (load s (MATRIX n c i j))) \<and>
         (\<forall>p. (\<forall>i<n. \<forall>j<n. p \<noteq> MATRIX n c i j) \<longrightarrow> load ((K ^^ m) s) p = load s p)"
proof (induction m)
  case 0
  then show ?case by simp
next
  case (Suc m)
  let ?t = "(K ^^ m) s"
  have keep: "load ?t p = load s p" if "\<forall>i<n. \<forall>j<n. p \<noteq> MATRIX n c i j" for p
    using Suc that by simp
  have "load ?t p = load s p" if "p \<notin> block n c" for p
    using that by (intro keep) (auto simp: cell_outside)
  then have d: "U ?t i j v = U s i j v" if "i < n" "j < n" for i j v
    using ro that unfolding reads_outside_def by blast
  have r: "rows_done U ?t (K ?t) c n n" by (rule K)
  show ?case
  proof (intro conjI allI impI)
    fix i j assume ij: "i < n" "j < n"
    have "load (K ?t) (MATRIX n c i j) = U ?t i j (load ?t (MATRIX n c i j))"
      using r ij by (simp add: rows_done_def)
    also have "\<dots> = U s i j (((U s i j) ^^ m) (load s (MATRIX n c i j)))"
      using Suc ij d by simp
    finally show "load ((K ^^ Suc m) s) (MATRIX n c i j) =
        ((U s i j) ^^ Suc m) (load s (MATRIX n c i j))" by simp
  next
    fix p assume p: "\<forall>i<n. \<forall>j<n. p \<noteq> MATRIX n c i j"
    then have "load (K ?t) p = load ?t p" using r by (simp add: rows_done_def)
    then show "load ((K ^^ Suc m) s) p = load s p" using keep [OF p] by simp
  qed
qed


text \<open>Where adding \<open>0 * y\<close> changes nothing for the entries \<open>y\<close> of \<open>b\<close>, the sparse kernel
  accumulates what the dense ones do.\<close>

lemma accumulate_sparse_neutral:
  fixes st :: "('a::{plus,times,zero}) machine"
  assumes "\<And>k v. k < n \<Longrightarrow> v + 0 * load st (MATRIX n b k j) = v"
  shows "accumulate_sparse st a b n i j v = accumulate st a b n i j v"
  unfolding accumulate_def accumulate_sparse_def
proof (rule foldl_cong [OF refl refl])
  fix v k assume "k \<in> set [0..<n]"
  then have k: "k < n" by simp
  show "(if load st (MATRIX n a i k) \<noteq> 0
         then v + load st (MATRIX n a i k) * load st (MATRIX n b k j) else v) =
        v + load st (MATRIX n a i k) * load st (MATRIX n b k j)"
    using assms [OF k, of v] by auto
qed

text \<open>In exact arithmetic what is accumulated is the sum of the products.\<close>

lemma foldl_plus_sum:
  fixes v :: "'a::comm_monoid_add"
  shows "foldl (\<lambda>v k. v + f k) v [0..<m] = v + (\<Sum>k = 0..<m. f k)"
  by (induction m) (simp_all add: add.assoc)

lemma accumulate_exact:
  fixes st :: "('a::semiring_0) machine"
  shows "accumulate st a b n i j v =
           v + (\<Sum>k = 0..<n. load st (MATRIX n a i k) * load st (MATRIX n b k j))"
    and "accumulate_sparse st a b n i j v =
           v + (\<Sum>k = 0..<n. load st (MATRIX n a i k) * load st (MATRIX n b k j))"
proof -
  show "accumulate st a b n i j v =
      v + (\<Sum>k = 0..<n. load st (MATRIX n a i k) * load st (MATRIX n b k j))"
    by (simp add: accumulate_def foldl_plus_sum)
  have "accumulate_sparse st a b n i j v = accumulate st a b n i j v"
    by (rule accumulate_sparse_neutral) simp
  then show "accumulate_sparse st a b n i j v =
      v + (\<Sum>k = 0..<n. load st (MATRIX n a i k) * load st (MATRIX n b k j))"
    by (simp add: accumulate_def foldl_plus_sum)
qed

section \<open>What the kernels leave alone\<close>

lemma matrix_mult1_frame:
  fixes st :: "('a::{plus,times}) machine"
  assumes "p \<notin> block n c"
  shows "load (matrix_mult1 c a b n st) p = load st p"
proof -
  have "load (for_loop 0 n (\<lambda>i. for_loop 0 n (\<lambda>j. for_loop 0 n (\<lambda>k s.
          store (MATRIX n c i j)
            (load s (MATRIX n c i j) + load s (MATRIX n a i k) * load s (MATRIX n b k j)) s))) s) p
        = load s p" for s :: "'a machine"
    by (intro for_loop_proj [where g = "\<lambda>s. load s p"]) (simp add: cell_outside assms)
  then show ?thesis by (simp add: matrix_mult1_def)
qed

lemma matrix_mult2_frame:
  fixes st :: "('a::{plus,times}) machine"
  assumes "p \<notin> block n c"
  shows "load (matrix_mult2 c a b n st) p = load st p"
proof -
  have "load (for_loop 0 n (\<lambda>j. for_loop 0 n (\<lambda>k s.
          store (MATRIX n c i j)
            (load s (MATRIX n c i j) + load s (MATRIX n a i k) * load s (MATRIX n b k j)) s)) s) p
        = load s p" if "i < n" for i and s :: "'a machine"
    using that by (intro for_loop_proj [where g = "\<lambda>s. load s p"]) (simp add: cell_outside assms)
  then have "load (for_loop 0 n (\<lambda>i s0. profile_log Profile_end (for_loop 0 n (\<lambda>j. for_loop 0 n (\<lambda>k s.
          store (MATRIX n c i j)
            (load s (MATRIX n c i j) + load s (MATRIX n a i k) * load s (MATRIX n b k j)) s))
          (profile_log Profile_start s0))) s) p = load s p" for s :: "'a machine"
    by (intro for_loop_proj [where g = "\<lambda>s. load s p"]) simp
  then show ?thesis by (simp add: matrix_mult2_def)
qed

lemma sparsematrix_mult_frame:
  fixes st :: "('a::{plus,times,zero}) machine"
  assumes "p \<notin> block n c"
  shows "load (sparsematrix_mult c a b n st) p = load st p"
proof -
  have "load (for_loop 0 n (\<lambda>i. for_loop 0 n (\<lambda>j. for_loop 0 n (\<lambda>k s.
          if load s (MATRIX n a i k) \<noteq> 0 then
          store (MATRIX n c i j)
            (load s (MATRIX n c i j) + load s (MATRIX n a i k) * load s (MATRIX n b k j)) s else s))) s) p
        = load s p" for s :: "'a machine"
    by (intro for_loop_proj [where g = "\<lambda>s. load s p"]) (simp add: cell_outside assms)
  then show ?thesis by (simp add: sparsematrix_mult_def)
qed

lemma for_loop_rel:
  assumes "R s t" and "\<And>i s t. i < n \<Longrightarrow> R s t \<Longrightarrow> R (f i s) (g i t)"
  shows "R (for_loop 0 n f s) (for_loop 0 n g t)"
proof -
  have "m \<le> n \<Longrightarrow> R (for_loop 0 m f s) (for_loop 0 m g t)" for m
  proof (induction m)
    case 0
    then show ?case using assms(1) by simp
  next
    case (Suc m)
    then show ?case using assms(2) [of m] by (simp add: for_loop_last)
  qed
  then show ?thesis by simp
qed




section \<open>Filling a matrix\<close>

lemma rand_calls_store [simp]: "rand_calls (store p v s) = rand_calls s"
  by (simp add: store_def)

lemma dense_cell:
  "(case rand w s of (r, s1) \<Rightarrow> store p (of_nat r / 10) s1) =
   store p (drawn w (rand_calls s)) (s\<lparr>rand_calls := Suc (rand_calls s)\<rparr>)"
  by (simp add: rand_def drawn_def)

lemma load_rand_calls_update [simp]: "load (s\<lparr>rand_calls := k\<rparr>) p = load s p"
  by (simp add: load_def)

lemma dense_row:
  fixes s :: "('a::field) machine"
  shows "row_filled w n m i n s
     (for_loop 0 n (\<lambda>j s. case rand w s of (r, s1) \<Rightarrow> store (MATRIX n m i j) (of_nat r / 10) s1) s)"
proof (rule for_loop_invariant [where P = "\<lambda>k t. row_filled w n m i k s t"])
  show "row_filled w n m i 0 s s" by (simp add: row_filled_def)
next
  fix k and t :: "'a machine"
  assume k: "k < n" and inv: "row_filled w n m i k s t"
  have fresh: "\<forall>j<k. MATRIX n m i j \<noteq> MATRIX n m i k"
    using k by (simp add: MATRIX_inj)
  show "row_filled w n m i (Suc k) s
          (case rand w t of (r, s1) \<Rightarrow> store (MATRIX n m i k) (of_nat r / 10) s1)"
    unfolding dense_cell row_filled_def
  proof (intro conjI allI impI)
    show "rand_calls (store (MATRIX n m i k) (drawn w (rand_calls t)) (t\<lparr>rand_calls := Suc (rand_calls t)\<rparr>))
          = rand_calls s + Suc k"
      using inv by (simp add: row_filled_def)
  next
    fix j assume "j < Suc k"
    then consider "j = k" | "j < k" by linarith
    then show "load (store (MATRIX n m i k) (drawn w (rand_calls t)) (t\<lparr>rand_calls := Suc (rand_calls t)\<rparr>))
          (MATRIX n m i j) = drawn w (rand_calls s + j)"
    proof cases
      case 1
      then show ?thesis using inv by (simp add: row_filled_def)
    next
      case 2
      then show ?thesis using inv fresh by (simp add: row_filled_def)
    qed
  next
    fix p assume "\<forall>j<Suc k. p \<noteq> MATRIX n m i j"
    then show "load (store (MATRIX n m i k) (drawn w (rand_calls t)) (t\<lparr>rand_calls := Suc (rand_calls t)\<rparr>)) p
          = load s p"
      using inv by (simp add: row_filled_def)
  qed
qed

lemma rows_filled_step:
  fixes s :: "('a::field) machine"
  assumes k: "k < n" and inv: "rows_filled w n m k s t" and row: "row_filled w n m k n t u"
  shows "rows_filled w n m (Suc k) s u"
  unfolding rows_filled_def
proof (intro conjI allI impI)
  show "rand_calls u = rand_calls s + Suc k * n"
    using inv row by (simp add: rows_filled_def row_filled_def)
next
  fix i j assume ij: "i < Suc k" "j < n"
  then consider "i = k" | "i < k" by linarith
  then show "load u (MATRIX n m i j) = drawn w (rand_calls s + (i * n + j))"
  proof cases
    case 1
    then show ?thesis using inv row ij(2) by (simp add: rows_filled_def row_filled_def add.assoc)
  next
    case 2
    have "\<forall>j'<n. MATRIX n m i j \<noteq> MATRIX n m k j'"
      using 2 ij(2) by (auto simp: MATRIX_inj)
    then have "load u (MATRIX n m i j) = load t (MATRIX n m i j)"
      using row by (simp add: row_filled_def)
    then show ?thesis using inv 2 ij(2) by (simp add: rows_filled_def)
  qed
next
  fix p assume p: "\<forall>i<Suc k. \<forall>j<n. p \<noteq> MATRIX n m i j"
  then have "load u p = load t p" using row by (simp add: row_filled_def)
  then show "load u p = load s p" using inv p by (simp add: rows_filled_def)
qed

lemma matrix_init_rows:
  fixes s :: "('a::field) machine"
  shows "rows_filled w n m n s (matrix_init w m n s)"
  unfolding matrix_init_def
proof (rule for_loop_invariant [where P = "\<lambda>k t. rows_filled w n m k s t"])
  show "rows_filled w n m 0 s s" by (simp add: rows_filled_def)
next
  fix k and t :: "'a machine"
  assume "k < n" "rows_filled w n m k s t"
  then show "rows_filled w n m (Suc k) s
     (for_loop 0 n (\<lambda>j s. case rand w s of (r, s1) \<Rightarrow> store (MATRIX n m k j) (of_nat r / 10) s1) t)"
    by (rule rows_filled_step) (rule dense_row)
qed


lemma sparse_cell_dense:
  "\<not> n div 2 < i \<Longrightarrow> sparsematrix_init_cell w m n i j s =
     (case rand w s of (r, s1) \<Rightarrow> store (MATRIX n m i j) (of_nat r / 10) s1)"
  by (simp add: sparsematrix_init_cell_def)

lemma sparse_cell_frame:
  "p \<noteq> MATRIX n m i j \<Longrightarrow> load (sparsematrix_init_cell w m n i j s) p = load s p"
  by (simp add: sparsematrix_init_cell_def rand_def split: prod.splits)

lemma sparse_row_frame:
  assumes "\<forall>j<n. p \<noteq> MATRIX n m i j"
  shows "load (for_loop 0 n (\<lambda>j. sparsematrix_init_cell w m n i j) s) p = load s p"
  using assms by (intro for_loop_proj [where g = "\<lambda>s. load s p"]) (simp add: sparse_cell_frame)

lemma sparse_row_dense:
  fixes s :: "('a::field) machine"
  assumes "\<not> n div 2 < i"
  shows "row_filled w n m i n s (for_loop 0 n (\<lambda>j. sparsematrix_init_cell w m n i j) s)"
proof -
  have "(\<lambda>j. sparsematrix_init_cell w m n i j) =
        (\<lambda>j s. case rand w s of (r, s1) \<Rightarrow> store (MATRIX n m i j) (of_nat r / 10) s1)"
    using assms by (intro ext) (rule sparse_cell_dense)
  then show ?thesis by (simp only: dense_row)
qed

lemma sparsematrix_init_dense_rows:
  fixes s :: "('a::field) machine"
  shows "dense_rows_filled w n m n s (sparsematrix_init w m n s)"
  unfolding sparsematrix_init_def
proof (rule for_loop_invariant [where P = "\<lambda>k t. dense_rows_filled w n m k s t"])
  show "dense_rows_filled w n m 0 s s" by (simp add: dense_rows_filled_def)
next
  fix k and t :: "'a machine"
  assume k: "k < n" and inv: "dense_rows_filled w n m k s t"
  let ?u = "for_loop 0 n (\<lambda>j. sparsematrix_init_cell w m n k j) t"
  show "dense_rows_filled w n m (Suc k) s ?u"
  proof (cases "n div 2 < k")
    case True
    have "load ?u (MATRIX n m i j) = load t (MATRIX n m i j)" if "i \<le> n div 2" "j < n" for i j
      using that True by (intro sparse_row_frame) (auto simp: MATRIX_inj)
    then show ?thesis using inv True
      by (auto simp: dense_rows_filled_def less_Suc_eq)
  next
    case False
    then have le: "k \<le> Suc (n div 2)" by simp
    have row: "row_filled w n m k n t ?u" using False by (rule sparse_row_dense)
    have r: "rand_calls t = rand_calls s + k * n" using inv le by (simp add: dense_rows_filled_def)
    show ?thesis unfolding dense_rows_filled_def
    proof (intro conjI allI impI)
      show "rand_calls ?u = rand_calls s + Suc k * n"
        using row r by (simp add: row_filled_def)
    next
      fix i j assume ij: "i < Suc k" "i \<le> n div 2" "j < n"
      then consider "i = k" | "i < k" by linarith
      then show "load ?u (MATRIX n m i j) = drawn w (rand_calls s + (i * n + j))"
      proof cases
        case 1
        then show ?thesis using row r ij(3) by (simp add: row_filled_def add.assoc)
      next
        case 2
        have "\<forall>j'<n. MATRIX n m i j \<noteq> MATRIX n m k j'"
          using 2 ij(3) by (auto simp: MATRIX_inj)
        then have "load ?u (MATRIX n m i j) = load t (MATRIX n m i j)"
          using row by (simp add: row_filled_def)
        then show ?thesis using inv 2 ij by (simp add: dense_rows_filled_def)
      qed
    qed
  qed
qed

section \<open>The set-up and the benchmark loops of \<open>main\<close>\<close>

lemma for_loop_commute:
  assumes "\<And>i s. i < n \<Longrightarrow> body i (g s) = g (body i s)"
  shows "for_loop 0 n body (g s) = g (for_loop 0 n body s)"
proof (rule for_loop_rel [where R = "\<lambda>s t. s = g t"])
  show "g s = g s" by simp
next
  fix i s t assume "i < n" "s = g t"
  then show "body i s = g (body i t)" using assms by simp
qed

lemma store_aside: "store p v (aside x y s) = aside x y (store p v s)"
  by (simp add: store_def aside_def split: option.splits)

lemma load_aside [simp]: "load (aside x y s) p = load s p"
  by (simp add: load_def aside_def split: option.splits)

lemma profile_log_aside: "profile_log e (aside x y s) = aside x y (profile_log e s)"
  by (simp add: profile_log_def aside_def split: option.splits)

lemma matrix_mult1_aside:
  fixes s :: "('a::{plus,times}) machine"
  shows "matrix_mult1 c a b n (aside x y s) = aside x y (matrix_mult1 c a b n s)"
proof -
  have "for_loop 0 n (\<lambda>i. for_loop 0 n (\<lambda>j. for_loop 0 n (\<lambda>k s. store (MATRIX n c i j)
            (load s (MATRIX n c i j) + load s (MATRIX n a i k) * load s (MATRIX n b k j)) s))) (aside x y s) =
        aside x y (for_loop 0 n (\<lambda>i. for_loop 0 n (\<lambda>j. for_loop 0 n (\<lambda>k s. store (MATRIX n c i j)
            (load s (MATRIX n c i j) + load s (MATRIX n a i k) * load s (MATRIX n b k j)) s))) s)"
    for s :: "'a machine"
    by (intro for_loop_commute [where g = "aside x y"]) (simp add: store_aside)
  then show ?thesis by (simp add: matrix_mult1_def profile_log_aside)
qed

lemma matrix_mult2_aside:
  fixes s :: "('a::{plus,times}) machine"
  shows "matrix_mult2 c a b n (aside x y s) = aside x y (matrix_mult2 c a b n s)"
proof -
  have "for_loop 0 n (\<lambda>j. for_loop 0 n (\<lambda>k s. store (MATRIX n c i j)
            (load s (MATRIX n c i j) + load s (MATRIX n a i k) * load s (MATRIX n b k j)) s)) (aside x y s) =
        aside x y (for_loop 0 n (\<lambda>j. for_loop 0 n (\<lambda>k s. store (MATRIX n c i j)
            (load s (MATRIX n c i j) + load s (MATRIX n a i k) * load s (MATRIX n b k j)) s)) s)"
    for i and s :: "'a machine"
    by (intro for_loop_commute [where g = "aside x y"]) (simp add: store_aside)
  then have "for_loop 0 n (\<lambda>i s0. profile_log Profile_end (for_loop 0 n (\<lambda>j. for_loop 0 n (\<lambda>k s.
          store (MATRIX n c i j)
            (load s (MATRIX n c i j) + load s (MATRIX n a i k) * load s (MATRIX n b k j)) s))
          (profile_log Profile_start s0))) (aside x y s) =
     aside x y (for_loop 0 n (\<lambda>i s0. profile_log Profile_end (for_loop 0 n (\<lambda>j. for_loop 0 n (\<lambda>k s.
          store (MATRIX n c i j)
            (load s (MATRIX n c i j) + load s (MATRIX n a i k) * load s (MATRIX n b k j)) s))
          (profile_log Profile_start s0))) s)"
    by (intro for_loop_commute [where g = "aside x y"]) (simp add: profile_log_aside)
  then show ?thesis by (simp add: matrix_mult2_def profile_log_aside)
qed

lemma sparsematrix_mult_aside:
  fixes s :: "('a::{plus,times,zero}) machine"
  shows "sparsematrix_mult c a b n (aside x y s) = aside x y (sparsematrix_mult c a b n s)"
proof -
  have "for_loop 0 n (\<lambda>i. for_loop 0 n (\<lambda>j. for_loop 0 n (\<lambda>k s.
          if load s (MATRIX n a i k) \<noteq> 0 then store (MATRIX n c i j)
            (load s (MATRIX n c i j) + load s (MATRIX n a i k) * load s (MATRIX n b k j)) s else s))) (aside x y s) =
        aside x y (for_loop 0 n (\<lambda>i. for_loop 0 n (\<lambda>j. for_loop 0 n (\<lambda>k s.
          if load s (MATRIX n a i k) \<noteq> 0 then store (MATRIX n c i j)
            (load s (MATRIX n c i j) + load s (MATRIX n a i k) * load s (MATRIX n b k j)) s else s))) s)"
    for s :: "'a machine"
    by (intro for_loop_commute [where g = "aside x y"]) (simp add: store_aside)
  then show ?thesis by (simp add: sparsematrix_mult_def profile_log_aside)
qed

lemma aside_updates:
  fixes K :: "'a machine \<Rightarrow> 'a machine"
  assumes "\<And>x y s. K (aside x y s) = aside x y (K s)"
  shows "K (s\<lparr>wtime_calls := k\<rparr>) = (K s)\<lparr>wtime_calls := k\<rparr>"
    and "K (s\<lparr>stdout := l\<rparr>) = (K s)\<lparr>stdout := l\<rparr>"
  using assms [of "Some k" None s] assms [of None "Some l" s] by (simp_all add: aside_def)

lemma aside_kept:
  fixes K :: "'a machine \<Rightarrow> 'a machine"
  assumes "\<And>x y s. K (aside x y s) = aside x y (K s)"
  shows "wtime_calls (K s) = wtime_calls s" and "stdout (K s) = stdout s"
proof -
  have "K s = (K s)\<lparr>wtime_calls := wtime_calls s\<rparr>"
    using assms [of "Some (wtime_calls s)" None s] by (simp add: aside_def)
  then have "wtime_calls (K s) = wtime_calls ((K s)\<lparr>wtime_calls := wtime_calls s\<rparr>)" by simp
  then show "wtime_calls (K s) = wtime_calls s" by simp
  have "K s = (K s)\<lparr>stdout := stdout s\<rparr>"
    using assms [of None "Some (stdout s)" s] by (simp add: aside_def)
  then have "stdout (K s) = stdout ((K s)\<lparr>stdout := stdout s\<rparr>)" by simp
  then show "stdout (K s) = stdout s" by simp
qed

lemma funpow_aside:
  fixes K :: "'a machine \<Rightarrow> 'a machine"
  assumes "\<And>x y s. K (aside x y s) = aside x y (K s)"
  shows "(K ^^ m) (aside x y s) = aside x y ((K ^^ m) s)"
  by (induction m) (simp_all add: assms)

lemma timing_lines_0 [simp]: "timing_lines w label t 0 = []"
  by (simp add: timing_lines_def)

lemma timing_lines_Suc:
  "timing_lines w label t (Suc m) =
     (if m = 0 then [] else timing_lines w label t m @
        [Timing_line label (wtime_seq w (t + 2 * m + 1) - wtime_seq w (t + 2 * m))])"
  by (simp add: timing_lines_def)

lemma benchmark_loop:
  fixes st :: "('a::minus) machine" and K :: "'a machine \<Rightarrow> 'a machine"
  assumes ext: "\<And>x y s. K (aside x y s) = aside x y (K s)"
  shows "for_loop 0 m (\<lambda>it s.
          case omp_get_wtime w s of (start, s1) \<Rightarrow>
          case omp_get_wtime w (K s1) of (endt, s2) \<Rightarrow>
            if it \<noteq> 0 then printf (Timing_line label (endt - start)) s2 else s2) st =
         ((K ^^ m) st)\<lparr>wtime_calls := wtime_calls st + 2 * m,
            stdout := stdout st @ timing_lines w label (wtime_calls st) m\<rparr>"
proof (induction m)
  case 0
  then show ?case by (simp add: timing_lines_def)
next
  case (Suc m)
  let ?B = "\<lambda>it s.
          case omp_get_wtime w s of (start, s1) \<Rightarrow>
          case omp_get_wtime w (K s1) of (endt, s2) \<Rightarrow>
            if it \<noteq> 0 then printf (Timing_line label (endt - start)) s2 else s2"
  let ?t = "((K ^^ m) st)\<lparr>wtime_calls := wtime_calls st + 2 * m,
            stdout := stdout st @ timing_lines w label (wtime_calls st) m\<rparr>"
  have "for_loop 0 (Suc m) ?B st = ?B m (for_loop 0 m ?B st)"
    by (simp only: for_loop_last le0)
  also have "\<dots> = ?B m ?t"
    by (simp only: Suc)
  also have "\<dots> = ((K ^^ Suc m) st)\<lparr>wtime_calls := wtime_calls st + 2 * Suc m,
            stdout := stdout st @ timing_lines w label (wtime_calls st) (Suc m)\<rparr>"
    by (simp add: omp_get_wtime_def aside_updates [OF ext] aside_kept [OF ext] printf_def
        timing_lines_Suc)
  finally show ?case .
qed


lemma main_benchmarks_eq:
  fixes st :: "('a::field) machine"
  shows "main_benchmarks w (a1, a2, b, c1, c2, c3) n st =
    ((sparsematrix_mult c3 a2 b n ^^ 6) ((matrix_mult2 c2 a1 b n ^^ 6) ((matrix_mult1 c1 a1 b n ^^ 6) st)))
      \<lparr>wtime_calls := wtime_calls st + 36,
       stdout := stdout st @ timing_lines w ''mult1'' (wtime_calls st) 6 @
         timing_lines w ''mult2'' (wtime_calls st + 12) 6 @
         timing_lines w ''sparsemult'' (wtime_calls st + 24) 6\<rparr>"
proof -
  have six: "Suc NITERATIONS = 6" by (simp add: NITERATIONS_def)
  have e2: "(matrix_mult2 c2 a1 b n ^^ 6) (aside x y s) = aside x y ((matrix_mult2 c2 a1 b n ^^ 6) s)"
    for x y and s :: "'a machine"
    by (rule funpow_aside) (rule matrix_mult2_aside)
  have e3: "(sparsematrix_mult c3 a2 b n ^^ 6) (aside x y s) = aside x y ((sparsematrix_mult c3 a2 b n ^^ 6) s)"
    for x y and s :: "'a machine"
    by (rule funpow_aside) (rule sparsematrix_mult_aside)
  have b1: "for_loop 0 6 (\<lambda>it s.
          case omp_get_wtime w s of (start, s1) \<Rightarrow>
          case omp_get_wtime w (matrix_mult1 c1 a1 b n s1) of (endt, s2) \<Rightarrow>
            if it \<noteq> 0 then printf (Timing_line ''mult1'' (endt - start)) s2 else s2) s =
         ((matrix_mult1 c1 a1 b n ^^ 6) s)\<lparr>wtime_calls := wtime_calls s + 2 * 6,
            stdout := stdout s @ timing_lines w ''mult1'' (wtime_calls s) 6\<rparr>"
    for s :: "'a machine"
    by (rule benchmark_loop) (rule matrix_mult1_aside)
  have b2: "for_loop 0 6 (\<lambda>it s.
          case omp_get_wtime w s of (start, s1) \<Rightarrow>
          case omp_get_wtime w (matrix_mult2 c2 a1 b n s1) of (endt, s2) \<Rightarrow>
            if it \<noteq> 0 then printf (Timing_line ''mult2'' (endt - start)) s2 else s2) s =
         ((matrix_mult2 c2 a1 b n ^^ 6) s)\<lparr>wtime_calls := wtime_calls s + 2 * 6,
            stdout := stdout s @ timing_lines w ''mult2'' (wtime_calls s) 6\<rparr>"
    for s :: "'a machine"
    by (rule benchmark_loop) (rule matrix_mult2_aside)
  have b3: "for_loop 0 6 (\<lambda>it s.
          case omp_get_wtime w s of (start, s1) \<Rightarrow>
          case omp_get_wtime w (sparsematrix_mult c3 a2 b n s1) of (endt, s2) \<Rightarrow>
            if it \<noteq> 0 then printf (Timing_line ''sparsemult'' (endt - start)) s2 else s2) s =
         ((sparsematrix_mult c3 a2 b n ^^ 6) s)\<lparr>wtime_calls := wtime_calls s + 2 * 6,
            stdout := stdout s @ timing_lines w ''sparsemult'' (wtime_calls s) 6\<rparr>"
    for s :: "'a machine"
    by (rule benchmark_loop) (rule sparsematrix_mult_aside)
  note up2 = aside_updates [OF e2] and up3 = aside_updates [OF e3]
  note k2 = aside_kept [OF e2] and k3 = aside_kept [OF e3]
  have "main_benchmarks w (a1, a2, b, c1, c2, c3) n st =
        for_loop 0 6 (\<lambda>it s.
          case omp_get_wtime w s of (start, s1) \<Rightarrow>
          case omp_get_wtime w (sparsematrix_mult c3 a2 b n s1) of (endt, s2) \<Rightarrow>
            if it \<noteq> 0 then printf (Timing_line ''sparsemult'' (endt - start)) s2 else s2)
       (for_loop 0 6 (\<lambda>it s.
          case omp_get_wtime w s of (start, s1) \<Rightarrow>
          case omp_get_wtime w (matrix_mult2 c2 a1 b n s1) of (endt, s2) \<Rightarrow>
            if it \<noteq> 0 then printf (Timing_line ''mult2'' (endt - start)) s2 else s2)
       (for_loop 0 6 (\<lambda>it s.
          case omp_get_wtime w s of (start, s1) \<Rightarrow>
          case omp_get_wtime w (matrix_mult1 c1 a1 b n s1) of (endt, s2) \<Rightarrow>
            if it \<noteq> 0 then printf (Timing_line ''mult1'' (endt - start)) s2 else s2)
        st))"
    by (simp only: main_benchmarks_def six prod.case)
  also have "\<dots> = ((sparsematrix_mult c3 a2 b n ^^ 6) ((matrix_mult2 c2 a1 b n ^^ 6) ((matrix_mult1 c1 a1 b n ^^ 6) st)))
      \<lparr>wtime_calls := wtime_calls st + 36,
       stdout := stdout st @ timing_lines w ''mult1'' (wtime_calls st) 6 @
         timing_lines w ''mult2'' (wtime_calls st + 12) 6 @
         timing_lines w ''sparsemult'' (wtime_calls st + 24) 6\<rparr>"
    unfolding b1 b2 b3 by (simp add: up2 up3 k2 k3 add.commute)
  finally show ?thesis .
qed

lemma matrix_init_kept:
  fixes s :: "('a::field) machine"
  shows "wtime_calls (matrix_init w m n s) = wtime_calls s"
    and "malloc_calls (matrix_init w m n s) = malloc_calls s"
    and "stdout (matrix_init w m n s) = stdout s"
    and "profile (matrix_init w m n s) = profile s"
proof -
  let ?g = "\<lambda>s :: 'a machine. (wtime_calls s, malloc_calls s, stdout s, profile s)"
  have "?g (matrix_init w m n s) = ?g s"
    unfolding matrix_init_def
    by (intro for_loop_proj [where g = ?g]) (simp add: rand_def store_def)
  then show "wtime_calls (matrix_init w m n s) = wtime_calls s"
    and "malloc_calls (matrix_init w m n s) = malloc_calls s"
    and "stdout (matrix_init w m n s) = stdout s"
    and "profile (matrix_init w m n s) = profile s" by simp_all
qed

lemma sparsematrix_init_kept:
  fixes s :: "('a::field) machine"
  shows "wtime_calls (sparsematrix_init w m n s) = wtime_calls s"
    and "malloc_calls (sparsematrix_init w m n s) = malloc_calls s"
    and "stdout (sparsematrix_init w m n s) = stdout s"
    and "profile (sparsematrix_init w m n s) = profile s"
proof -
  let ?g = "\<lambda>s :: 'a machine. (wtime_calls s, malloc_calls s, stdout s, profile s)"
  have "?g (sparsematrix_init w m n s) = ?g s"
    unfolding sparsematrix_init_def
    by (intro for_loop_proj [where g = ?g])
      (simp add: sparsematrix_init_cell_def rand_def store_def)
  then show "wtime_calls (sparsematrix_init w m n s) = wtime_calls s"
    and "malloc_calls (sparsematrix_init w m n s) = malloc_calls s"
    and "stdout (sparsematrix_init w m n s) = stdout s"
    and "profile (sparsematrix_init w m n s) = profile s" by simp_all
qed

lemma created_kept [simp]:
  "wtime_calls (created m n s) = wtime_calls s"
  "malloc_calls (created m n s) = Suc (malloc_calls s)"
  "rand_calls (created m n s) = rand_calls s"
  "stdout (created m n s) = stdout s"
  "profile (created m n s) = profile s"
  by (simp_all add: created_def memset_def)

lemma matrix_create_eq:
  "matrix_create w n s =
     (if INT_MAX < n * n then Inl (Undefined, s)
      else
        case malloc_seq w (malloc_calls s) (n * n) of
          None \<Rightarrow> Inl (Abort, s\<lparr>malloc_calls := Suc (malloc_calls s)\<rparr>)
        | Some m \<Rightarrow> Inr (m, created m n s))"
  by (simp add: matrix_create_def malloc_def created_def split: option.splits)

lemma sparsematrix_create_eq:
  "sparsematrix_create w n s =
     (if INT_MAX < n * n then Inl (Undefined, s)
      else
        case malloc_seq w (malloc_calls s) (n * n) of
          None \<Rightarrow> Inl (Abort, s\<lparr>malloc_calls := Suc (malloc_calls s)\<rparr>)
        | Some m \<Rightarrow> Inr (m, created m n s))"
  by (simp add: sparsematrix_create_def malloc_def created_def split: option.splits)

lemma main_setup_overflow:
  "INT_MAX < n * n \<Longrightarrow> main_setup w n st = Inl (Undefined, st)"
  by (simp add: main_setup_def and_then_def matrix_create_eq)

lemma main_setup_explicit:
  fixes st :: "('a::field) machine"
  assumes r: "n * n \<le> INT_MAX"
      and a: "\<forall>k<6. malloc_seq w (malloc_calls st + k) (n * n) = Some (M k)"
  shows "main_setup w n st = Inr ((M 0, M 5, M 1, M 2, M 3, M 4), setup_state w n M st)"
proof -
  have m: "malloc_seq w (malloc_calls st) (n * n) = Some (M 0)"
    "malloc_seq w (Suc (malloc_calls st)) (n * n) = Some (M 1)"
    "malloc_seq w (Suc (Suc (malloc_calls st))) (n * n) = Some (M 2)"
    "malloc_seq w (Suc (Suc (Suc (malloc_calls st)))) (n * n) = Some (M 3)"
    "malloc_seq w (Suc (Suc (Suc (Suc (malloc_calls st))))) (n * n) = Some (M 4)"
    "malloc_seq w (Suc (Suc (Suc (Suc (Suc (malloc_calls st)))))) (n * n) = Some (M 5)"
    using a [rule_format, of 0] a [rule_format, of 1] a [rule_format, of 2]
      a [rule_format, of 3] a [rule_format, of 4] a [rule_format, of 5]
    by (simp_all add: eval_nat_numeral)
  have o: "\<not> INT_MAX < n * n" using r by simp
  show ?thesis
    by (simp add: main_setup_def and_then_def matrix_create_eq sparsematrix_create_eq
        matrix_init_kept m o setup_state_def)
qed

lemma main_setup_kept:
  fixes st :: "('a::field) machine"
  assumes "main_setup w n st = Inr (ms, s)"
  shows "wtime_calls s = wtime_calls st" and "stdout s = stdout st"
  using assms
  by (auto simp: main_setup_def and_then_def matrix_create_eq sparsematrix_create_eq
        matrix_init_kept sparsematrix_init_kept split: option.splits if_splits)


lemma load_created: "load (created m n s) p = (if p \<in> block n m then 0 else load s p)"
  by (auto simp: created_def memset_def load_def block_def)

lemma block_cells: "p \<notin> block n m \<Longrightarrow> \<forall>i<n. \<forall>j<n. p \<noteq> MATRIX n m i j"
  using MATRIX_in_block by blast

lemma dense_step:
  fixes s :: "('a::field) machine"
  shows "rand_calls (matrix_init w m n (created m n s)) = rand_calls s + n * n"
    and "i < n \<Longrightarrow> j < n \<Longrightarrow>
         load (matrix_init w m n (created m n s)) (MATRIX n m i j) = drawn w (rand_calls s + (i * n + j))"
    and "p \<notin> block n m \<Longrightarrow> load (matrix_init w m n (created m n s)) p = load s p"
  using matrix_init_rows [of w n m "created m n s"] block_cells [of p n m]
  by (simp_all add: rows_filled_def load_created)

lemma sparsematrix_init_frame:
  fixes s :: "('a::field) machine"
  assumes "p \<notin> block n m"
  shows "load (sparsematrix_init w m n s) p = load s p"
  unfolding sparsematrix_init_def
  by (intro for_loop_proj [where g = "\<lambda>s. load s p"])
    (simp add: sparse_cell_frame cell_outside assms)

lemma sparse_init_step:
  fixes s :: "('a::field) machine"
  shows "p \<notin> block n m \<Longrightarrow> load (sparsematrix_init w m n (created m n s)) p = load s p"
  by (simp add: sparsematrix_init_frame load_created)

lemma disjoint_cell:
  "block n c \<inter> block n m = {} \<Longrightarrow> i < n \<Longrightarrow> j < n \<Longrightarrow> MATRIX n c i j \<notin> block n m"
  using MATRIX_in_block [of i n j c] by auto

lemma setup_state_cells:
  fixes st :: "('a::field) machine"
  assumes d: "\<forall>k<6. \<forall>l<6. k \<noteq> l \<longrightarrow> block n (M k) \<inter> block n (M l) = {}"
      and i: "i < n" and j: "j < n"
  shows "load (setup_state w n M st) (MATRIX n (M 2) i j) = drawn w (rand_calls st + 2 * (n * n) + (i * n + j))"
    and "load (setup_state w n M st) (MATRIX n (M 3) i j) = drawn w (rand_calls st + 3 * (n * n) + (i * n + j))"
    and "load (setup_state w n M st) (MATRIX n (M 4) i j) = drawn w (rand_calls st + 4 * (n * n) + (i * n + j))"
proof -
  have dj: "MATRIX n (M k) i j \<notin> block n (M l)" if "k < 6" "l < 6" "k \<noteq> l" for k l
    using d that i j by (intro disjoint_cell) auto
  have e: "2 * (n * n) = n * n + n * n" "3 * (n * n) = n * n + (n * n + n * n)"
    "4 * (n * n) = n * n + (n * n + (n * n + n * n))" by simp_all
  show "load (setup_state w n M st) (MATRIX n (M 2) i j) = drawn w (rand_calls st + 2 * (n * n) + (i * n + j))"
    using dj [of 2 5] dj [of 2 4] dj [of 2 3] i j
    by (simp add: setup_state_def sparse_init_step dense_step add.assoc e)
  show "load (setup_state w n M st) (MATRIX n (M 3) i j) = drawn w (rand_calls st + 3 * (n * n) + (i * n + j))"
    using dj [of 3 5] dj [of 3 4] i j
    by (simp add: setup_state_def sparse_init_step dense_step add.assoc e)
  show "load (setup_state w n M st) (MATRIX n (M 4) i j) = drawn w (rand_calls st + 4 * (n * n) + (i * n + j))"
    using dj [of 4 5] i j
    by (simp add: setup_state_def sparse_init_step dense_step add.assoc e)
qed

lemma drawn_zero:
  "(drawn w k = (0::'a::field_char_0)) = (rand_seq w k = 0)"
  by (simp add: drawn_def)

lemma sparse_cell_decision:
  "n div 2 < i \<Longrightarrow> sparsematrix_init_cell w m n i j s =
     (if rand_seq w (rand_calls s) mod 100 \<le> SPARSE_FACTOR
      then store (MATRIX n m i j) 0 (s\<lparr>rand_calls := Suc (rand_calls s)\<rparr>)
      else store (MATRIX n m i j) (drawn w (Suc (rand_calls s))) (s\<lparr>rand_calls := Suc (Suc (rand_calls s))\<rparr>))"
  by (simp add: sparsematrix_init_cell_def rand_def drawn_def)

lemma main_runs:
  fixes w :: "('a::field) world"
  assumes "2 \<le> length argv" and "0 < atoi (argv ! 1)"
      and "main_setup w (nat (atoi (argv ! 1))) (profile_log (Profile_setup (num_procs w)) (initial h)) =
             Inr ((a1, a2, b, c1, c2, c3), s0)"
  shows "main w argv h = (Exit EXIT_FAILURE,
           main_benchmarks w (a1, a2, b, c1, c2, c3) (nat (atoi (argv ! 1))) s0)"
    and "wtime_calls s0 = 0" and "stdout s0 = []"
  using assms main_setup_kept [OF assms(3)]
  by (simp_all add: main_def free_def profile_log_def initial_def)

lemma timing_lines_6:
  "timing_lines w label t 6 =
    [Timing_line label (wtime_seq w (t + 3) - wtime_seq w (t + 2)),
     Timing_line label (wtime_seq w (t + 5) - wtime_seq w (t + 4)),
     Timing_line label (wtime_seq w (t + 7) - wtime_seq w (t + 6)),
     Timing_line label (wtime_seq w (t + 9) - wtime_seq w (t + 8)),
     Timing_line label (wtime_seq w (t + 11) - wtime_seq w (t + 10))]"
proof -
  have "[1..<6] = [1, 2, 3, 4, 5::nat]" by code_simp
  then show ?thesis by (simp add: timing_lines_def eval_nat_numeral)
qed

lemma atoi_1: "atoi ''1'' = 1"
  by (simp add: atoi_def isspace_def isdigit_def)

lemma main_setup_world_of:
  assumes "n * n \<le> INT_MAX"
  shows "main_setup (world_of f) n (profile_log (Profile_setup (num_procs (world_of f))) (initial h)) =
     Inr ((0, 5 * (n * n), n * n, 2 * (n * n), 3 * (n * n), 4 * (n * n)),
       setup_state (world_of f) n (\<lambda>k. k * (n * n))
         (profile_log (Profile_setup (num_procs (world_of f))) (initial h)))"
proof -
  let ?M = "\<lambda>k. k * (n * n)"
  have "main_setup (world_of f) n (profile_log (Profile_setup (num_procs (world_of f))) (initial h)) =
     Inr ((?M 0, ?M 5, ?M 1, ?M 2, ?M 3, ?M 4),
       setup_state (world_of f) n ?M
         (profile_log (Profile_setup (num_procs (world_of f))) (initial h)))"
    using assms by (rule main_setup_explicit) (simp add: world_of_def profile_log_def initial_def)
  then show ?thesis by simp
qed

section \<open>The kernels accumulate the products in order\<close>

text \<open>
  Claim C1, as stated, fails: each kernel is to leave in \<open>c[i][j]\<close> its prior value plus
  the sum of the products \<open>a[i][k] * b[k][j]\<close>. With \<open>n = 1\<close>, \<open>c = 1\<close>, \<open>a = 0\<close> and
  \<open>b = +inf\<close> that value is \<open>1 + 0 * inf\<close>, which is NaN, and \<open>sparsematrix_mult\<close>, which
  skips the product, leaves \<open>1\<close>.
\<close>

theorem sparse_kernel_skips_nan:
  "load (sparsematrix_mult 0 1 2 1 (cells (Fin 1) (Fin 0) PInf)) (MATRIX 1 0 0 0) = Fin 1 \<and>
   load (cells (Fin 1) (Fin 0) PInf) (MATRIX 1 0 0 0) +
     load (cells (Fin 1) (Fin 0) PInf) (MATRIX 1 1 0 0) *
     load (cells (Fin 1) (Fin 0) PInf) (MATRIX 1 2 0 0) = NaN"
proof -
  have d: "block 1 0 \<inter> block 1 1 = {}" "block 1 0 \<inter> block 1 2 = {}"
    by (simp_all add: block_def)
  have "load (sparsematrix_mult 0 1 2 1 (cells (Fin 1) (Fin 0) PInf)) (MATRIX 1 0 0 0) =
      accumulate_sparse (cells (Fin 1) (Fin 0) PInf) 1 2 1 0 0
        (load (cells (Fin 1) (Fin 0) PInf) (MATRIX 1 0 0 0))"
    using sparsematrix_mult_rows [OF d, of "cells (Fin 1) (Fin 0) PInf"]
    by (simp add: rows_done_def)
  then show ?thesis
    by (simp add: accumulate_sparse_def cells_def initial_def load_def MATRIX_def zero_ieee_def)
qed

text \<open>
  Claim C1, amended. For matrices \<open>a\<close>, \<open>b\<close> and an accumulator \<open>c\<close> of size \<open>n\<times>n\<close>, whatever
  \<open>c\<close> holds before, each kernel leaves in \<open>c[i][j]\<close>, for all \<open>i, j < n\<close>, the value got
  from its prior value by adding the products \<open>a[i][k] * b[k][j]\<close> to it one after the
  other, for \<open>k = 0, ..., n - 1\<close>, in the arithmetic of the machine;
  \<open>sparsematrix_mult\<close> leaves out the products with \<open>a[i][k] == 0\<close>. The accumulator does
  not overlap the operands (the pointers are \<open>restrict\<close>). No law of arithmetic is
  assumed; where the arithmetic is exact, the value is the prior one plus the sum
  (\<open>accumulate_exact\<close>).
\<close>

theorem kernels_accumulate_in_order:
  fixes st :: "('a::{plus,times,zero}) machine"
  assumes "block n c \<inter> block n a = {}" and "block n c \<inter> block n b = {}"
      and "i < n" and "j < n"
  shows "load (matrix_mult1 c a b n st) (MATRIX n c i j) =
           accumulate st a b n i j (load st (MATRIX n c i j)) \<and>
         load (matrix_mult2 c a b n st) (MATRIX n c i j) =
           accumulate st a b n i j (load st (MATRIX n c i j)) \<and>
         load (sparsematrix_mult c a b n st) (MATRIX n c i j) =
           accumulate_sparse st a b n i j (load st (MATRIX n c i j))"
  using matrix_mult1_rows [OF assms(1,2), of st] matrix_mult2_rows [OF assms(1,2), of st]
    sparsematrix_mult_rows [OF assms(1,2), of st] assms(3,4)
  by (simp add: rows_done_def)

theorem kernels_accumulate_in_order_witness:
  "load (matrix_mult1 0 4 8 2 counting) (MATRIX 2 0 1 0) = 120 \<and>
   load (matrix_mult2 0 4 8 2 counting) (MATRIX 2 0 1 0) = 120 \<and>
   load (sparsematrix_mult 0 4 8 2 counting) (MATRIX 2 0 1 0) = 120"
proof -
  have d: "block 2 0 \<inter> block 2 4 = {}" "block 2 0 \<inter> block 2 8 = {}"
    by (simp_all add: block_def)
  have h: "(1::nat) < 2" "(0::nat) < 2" by simp_all
  have v: "load counting (MATRIX 2 0 1 0) +
      (\<Sum>k = 0..<2. load counting (MATRIX 2 4 1 k) * load counting (MATRIX 2 8 k 0)) = 120"
    by (simp add: counting_def initial_def load_def MATRIX_def eval_nat_numeral)
  show ?thesis
    using kernels_accumulate_in_order [OF d h, of counting] v
    by (simp add: accumulate_exact)
qed

section \<open>The kernels write the accumulator only\<close>

text \<open>
  Claim C7. A call of any of the three kernels leaves the operand matrices \<open>a\<close> and \<open>b\<close>
  unchanged; the accumulator \<open>c\<close> is the only matrix a kernel mutates. The operands do
  not overlap the accumulator (the pointers are \<open>restrict\<close>): every cell of \<open>a\<close> and of
  \<open>b\<close> holds after the call what it held before, and so does every cell of memory
  outside the \<open>n\<times>n\<close> block of \<open>c\<close>.
\<close>

theorem kernels_write_only_accumulator:
  fixes st :: "('a::{plus,times,zero}) machine"
  assumes "block n c \<inter> block n a = {}" and "block n c \<inter> block n b = {}"
  shows "(\<forall>p \<in> block n a \<union> block n b.
           load (matrix_mult1 c a b n st) p = load st p \<and>
           load (matrix_mult2 c a b n st) p = load st p \<and>
           load (sparsematrix_mult c a b n st) p = load st p) \<and>
         (\<forall>p. p \<notin> block n c \<longrightarrow>
           load (matrix_mult1 c a b n st) p = load st p \<and>
           load (matrix_mult2 c a b n st) p = load st p \<and>
           load (sparsematrix_mult c a b n st) p = load st p)"
proof -
  have "load (matrix_mult1 c a b n st) p = load st p \<and>
        load (matrix_mult2 c a b n st) p = load st p \<and>
        load (sparsematrix_mult c a b n st) p = load st p" if "p \<notin> block n c" for p
    using that by (simp add: matrix_mult1_frame matrix_mult2_frame sparsematrix_mult_frame)
  moreover have "p \<notin> block n c" if "p \<in> block n a \<union> block n b" for p
    using that assms by auto
  ultimately show ?thesis by blast
qed

theorem kernels_write_only_accumulator_witness:
  "load (matrix_mult1 0 4 8 2 counting) (MATRIX 2 4 0 1) = 5 \<and>
   load (matrix_mult2 0 4 8 2 counting) (MATRIX 2 4 0 1) = 5 \<and>
   load (sparsematrix_mult 0 4 8 2 counting) (MATRIX 2 4 0 1) = 5 \<and>
   load (matrix_mult1 0 4 8 2 counting) (MATRIX 2 8 1 1) = 11 \<and>
   load (matrix_mult2 0 4 8 2 counting) (MATRIX 2 8 1 1) = 11 \<and>
   load (sparsematrix_mult 0 4 8 2 counting) (MATRIX 2 8 1 1) = 11"
proof -
  have d: "block 2 0 \<inter> block 2 4 = {}" "block 2 0 \<inter> block 2 8 = {}"
    by (simp_all add: block_def)
  have m: "MATRIX 2 4 0 1 \<in> block 2 4 \<union> block 2 8" "MATRIX 2 8 1 1 \<in> block 2 4 \<union> block 2 8"
    by (simp_all add: block_def MATRIX_def)
  have v: "load counting (MATRIX 2 4 0 1) = 5" "load counting (MATRIX 2 8 1 1) = 11"
    by (simp_all add: counting_def initial_def load_def MATRIX_def)
  show ?thesis
    using kernels_write_only_accumulator [OF d, of counting, THEN conjunct1, rule_format, OF m(1)]
      kernels_write_only_accumulator [OF d, of counting, THEN conjunct1, rule_format, OF m(2)] v
    by simp
qed

section \<open>The three kernels compared\<close>




section \<open>Calling a kernel twice\<close>

text \<open>
  Claim C6, as stated, fails: two calls of a kernel are to leave in \<open>c[i][j]\<close> its first
  value plus twice the sum of the products. With \<open>n = 1\<close>, \<open>c = 1\<close>, \<open>a = 0\<close> and
  \<open>b = +inf\<close> that value is \<open>1 + 2 * (0 * inf)\<close>, which is NaN, and two calls of
  \<open>sparsematrix_mult\<close> leave \<open>1\<close>.
\<close>

theorem sparse_kernel_twice_skips_nan:
  "load (sparsematrix_mult 0 1 2 1 (sparsematrix_mult 0 1 2 1 (cells (Fin 1) (Fin 0) PInf)))
     (MATRIX 1 0 0 0) = Fin 1 \<and>
   load (cells (Fin 1) (Fin 0) PInf) (MATRIX 1 0 0 0) +
     Fin 2 * (load (cells (Fin 1) (Fin 0) PInf) (MATRIX 1 1 0 0) *
              load (cells (Fin 1) (Fin 0) PInf) (MATRIX 1 2 0 0)) = NaN"
proof -
  let ?s = "cells (Fin 1) (Fin 0) PInf"
  have d: "block 1 0 \<inter> block 1 1 = {}" "block 1 0 \<inter> block 1 2 = {}"
    by (simp_all add: block_def)
  have r: "rows_done (\<lambda>s. accumulate_sparse s 1 2 1) s (sparsematrix_mult 0 1 2 1 s) 0 1 1"
    for s :: "ieee machine"
    by (rule sparsematrix_mult_rows [OF d])
  have "load ((sparsematrix_mult 0 1 2 1 ^^ 2) ?s) (MATRIX 1 0 0 0) =
      ((accumulate_sparse ?s 1 2 1 0 0) ^^ 2) (load ?s (MATRIX 1 0 0 0))"
    using rows_done_funpow [OF r accumulate_sparse_reads_outside [OF d], of 2 ?s] by simp
  then show ?thesis
    by (simp add: accumulate_sparse_def cells_def initial_def load_def MATRIX_def zero_ieee_def
        eval_nat_numeral)
qed

text \<open>
  Claim C6, amended. Two calls of a kernel in succession, on the same accumulator and
  operands, accumulate twice: they leave in \<open>c[i][j]\<close> the value got from its first
  value by adding the products \<open>a[i][k] * b[k][j]\<close>, \<open>k = 0, ..., n - 1\<close>, one after the
  other, and then the same products once more (\<open>sparsematrix_mult\<close> leaving out those
  with \<open>a[i][k] == 0\<close>); a call is not idempotent. No law of arithmetic is assumed;
  where the arithmetic is exact, the value is the first one plus twice the sum.
\<close>

theorem kernels_accumulate_twice_in_order:
  fixes st :: "('a::{plus,times,zero}) machine"
  assumes "block n c \<inter> block n a = {}" and "block n c \<inter> block n b = {}"
      and "i < n" and "j < n"
  shows "load (matrix_mult1 c a b n (matrix_mult1 c a b n st)) (MATRIX n c i j) =
           accumulate st a b n i j (accumulate st a b n i j (load st (MATRIX n c i j))) \<and>
         load (matrix_mult2 c a b n (matrix_mult2 c a b n st)) (MATRIX n c i j) =
           accumulate st a b n i j (accumulate st a b n i j (load st (MATRIX n c i j))) \<and>
         load (sparsematrix_mult c a b n (sparsematrix_mult c a b n st)) (MATRIX n c i j) =
           accumulate_sparse st a b n i j
             (accumulate_sparse st a b n i j (load st (MATRIX n c i j)))"
proof -
  have r1: "rows_done (\<lambda>s. accumulate s a b n) s (matrix_mult1 c a b n s) c n n"
    and r2: "rows_done (\<lambda>s. accumulate s a b n) s (matrix_mult2 c a b n s) c n n"
    and r3: "rows_done (\<lambda>s. accumulate_sparse s a b n) s (sparsematrix_mult c a b n s) c n n"
    for s :: "'a machine"
    by (rule matrix_mult1_rows matrix_mult2_rows sparsematrix_mult_rows; rule assms)+
  note ro = accumulate_reads_outside [OF assms(1,2)]
    and ros = accumulate_sparse_reads_outside [OF assms(1,2)]
  show ?thesis
    using rows_done_funpow [OF r1 ro, of 2 st] rows_done_funpow [OF r2 ro, of 2 st]
      rows_done_funpow [OF r3 ros, of 2 st] assms(3,4)
    by (simp add: eval_nat_numeral)
qed

theorem kernels_accumulate_twice_in_order_witness:
  "load (matrix_mult1 0 4 8 2 (matrix_mult1 0 4 8 2 counting)) (MATRIX 2 0 1 0) = 238 \<and>
   load (matrix_mult2 0 4 8 2 (matrix_mult2 0 4 8 2 counting)) (MATRIX 2 0 1 0) = 238 \<and>
   load (sparsematrix_mult 0 4 8 2 (sparsematrix_mult 0 4 8 2 counting)) (MATRIX 2 0 1 0) = 238"
proof -
  have d: "block 2 0 \<inter> block 2 4 = {}" "block 2 0 \<inter> block 2 8 = {}"
    by (simp_all add: block_def)
  have h: "(1::nat) < 2" "(0::nat) < 2" by simp_all
  have v: "load counting (MATRIX 2 0 1 0) +
      ((\<Sum>k = 0..<2. load counting (MATRIX 2 4 1 k) * load counting (MATRIX 2 8 k 0)) +
       (\<Sum>k = 0..<2. load counting (MATRIX 2 4 1 k) * load counting (MATRIX 2 8 k 0))) = 238"
    by (simp add: counting_def initial_def load_def MATRIX_def eval_nat_numeral)
  show ?thesis
    using kernels_accumulate_twice_in_order [OF d h, of counting] v
    by (simp add: accumulate_exact add.assoc)
qed

section \<open>The dense rows of a sparse matrix\<close>

text \<open>
  Claim C8. For \<open>n > 0\<close> and a row \<open>i \<le> n/2\<close>, \<open>sparsematrix_init\<close> does on that row what
  \<open>matrix_init\<close> does: the body of the loop for a cell of the row is the body of
  \<open>matrix_init\<close> (one call of \<open>rand\<close>, stored divided by ten, never a forced zero), and
  after the call the cell holds what \<open>matrix_init\<close> leaves there, the value of the draw
  number \<open>i * n + j\<close>.
\<close>

theorem sparsematrix_init_dense_on_first_rows:
  fixes st :: "('a::field) machine"
  assumes "0 < n" and "i \<le> n div 2" and "j < n"
  shows "sparsematrix_init_cell w m n i j st =
           (case rand w st of (r, s1) \<Rightarrow> store (MATRIX n m i j) (of_nat r / 10) s1) \<and>
         load (sparsematrix_init w m n st) (MATRIX n m i j) = load (matrix_init w m n st) (MATRIX n m i j) \<and>
         load (sparsematrix_init w m n st) (MATRIX n m i j) = of_nat (rand_seq w (rand_calls st + (i * n + j))) / 10"
proof -
  have i: "i < n" using assms(1,2) by (simp add: div_le_dividend le_less_trans)
  have a: "load (sparsematrix_init w m n st) (MATRIX n m i j) = drawn w (rand_calls st + (i * n + j))"
    using sparsematrix_init_dense_rows [of w n m st] assms i by (simp add: dense_rows_filled_def)
  have b: "load (matrix_init w m n st) (MATRIX n m i j) = drawn w (rand_calls st + (i * n + j))"
    using matrix_init_rows [of w n m st] assms i by (simp add: rows_filled_def)
  have c: "sparsematrix_init_cell w m n i j st =
      (case rand w st of (r, s1) \<Rightarrow> store (MATRIX n m i j) (of_nat r / 10) s1)"
    using assms(2) by (intro sparse_cell_dense) simp
  show ?thesis unfolding a b using c by (simp add: drawn_def)
qed

theorem sparsematrix_init_dense_on_first_rows_witness:
  "load (sparsematrix_init (world_of (\<lambda>k. 10 * k)) 0 3 counting) (MATRIX 3 0 1 2) = 5 \<and>
   load (matrix_init (world_of (\<lambda>k. 10 * k)) 0 3 counting) (MATRIX 3 0 1 2) = 5"
proof -
  have h: "(0::nat) < 3" "(1::nat) \<le> 3 div 2" "(2::nat) < 3" by simp_all
  have v: "real (rand_seq (world_of (\<lambda>k. 10 * k)) (rand_calls counting + (1 * 3 + 2))) / 10 = 5"
    by (simp add: world_of_def counting_def initial_def)
  show ?thesis
    using sparsematrix_init_dense_on_first_rows [OF h, of "world_of (\<lambda>k. 10 * k)" 0 counting] v
    by simp
qed

section \<open>The sparse factor\<close>

text \<open>
  Claim C3. In \<open>sparsematrix_init\<close>, a cell of a row \<open>i > n/2\<close> is forced to zero for
  exactly 80 of the 100 residues of its decision draw (\<open>SPARSE_FACTOR/100\<close>), and is
  otherwise set from a fresh draw. The code compares with \<open><=\<close>: at \<open>n = 3\<close>, row 2, a
  decision draw of 80 forces the zero with that one call of \<open>rand\<close>, and 81 of the
  residues \<open>0, ..., 99\<close> do.
\<close>

theorem sparse_factor_off_by_one:
  "load (sparsematrix_init_cell (world_of (\<lambda>_. 80)) 0 3 2 0 counting) (MATRIX 3 0 2 0) = 0 \<and>
   rand_calls (sparsematrix_init_cell (world_of (\<lambda>_. 80)) 0 3 2 0 counting) = 1 \<and>
   length (filter (\<lambda>d. rand_calls (sparsematrix_init_cell (world_of (\<lambda>_. d)) 0 3 2 0 counting) = 1)
     [0..<100]) = 81"
proof -
  have c: "rand_calls (sparsematrix_init_cell (world_of (\<lambda>_. d)) 0 3 2 0 counting) = 1 \<longleftrightarrow> d mod 100 \<le> 80" for d
    by (simp add: sparse_cell_decision SPARSE_FACTOR_def world_of_def counting_def initial_def)
  have "length (filter (\<lambda>d. d mod 100 \<le> 80) [0..<100]) = 81" by code_simp
  then have "length (filter (\<lambda>d. rand_calls (sparsematrix_init_cell (world_of (\<lambda>_. d)) 0 3 2 0 counting) = 1)
     [0..<100]) = 81" by (simp only: c)
  moreover have "load (sparsematrix_init_cell (world_of (\<lambda>_. 80)) 0 3 2 0 counting) (MATRIX 3 0 2 0) = 0"
    by (simp add: sparse_cell_decision SPARSE_FACTOR_def world_of_def counting_def initial_def)
  ultimately show ?thesis using c [of 80] by simp
qed

section \<open>Usage and the sanity check\<close>

text \<open>
  Claim C4, as stated, fails. With the argument \<open>abc\<close>, which \<open>atoi\<close> reads as 0, the
  process aborts at \<open>assert(n > 0)\<close> and has printed nothing; it does not print the usage
  message and exit with success.
\<close>

theorem bad_argument_aborts:
  "atoi ''abc'' = 0 \<and>
   fst (main (world_of (\<lambda>k. k)) [''mm'', ''abc''] (\<lambda>p. real p)) = Abort \<and>
   stdout (snd (main (world_of (\<lambda>k. k)) [''mm'', ''abc''] (\<lambda>p. real p))) = []"
  by (simp add: main_def atoi_def isspace_def isdigit_def initial_def)

text \<open>
  Claim C4, amended. With no command-line argument the program prints the usage message
  and exits with the success status. With an argument that \<open>atoi\<close> does not read as a
  positive integer, the assertion \<open>n > 0\<close> fails: the process aborts and has printed
  nothing.
\<close>

theorem main_usage_or_abort:
  "(length argv < 2 \<longrightarrow> main w argv h = (Exit EXIT_SUCCESS, printf Usage_line (initial h))) \<and>
   (2 \<le> length argv \<and> atoi (argv ! 1) \<le> 0 \<longrightarrow> main w argv h = (Abort, initial h))"
  by (simp add: main_def usage_def)

theorem main_usage_or_abort_witness:
  "main (world_of (\<lambda>k. k)) [''mm''] (\<lambda>p. real p) =
     (Exit EXIT_SUCCESS, printf Usage_line (initial (\<lambda>p. real p))) \<and>
   main (world_of (\<lambda>k. k)) [''mm'', ''abc''] (\<lambda>p. real p) = (Abort, initial (\<lambda>p. real p))"
proof -
  have "atoi ''abc'' = 0" by (simp add: atoi_def isspace_def isdigit_def)
  then show ?thesis
    using main_usage_or_abort [of "[''mm'']" "world_of (\<lambda>k. k)" "\<lambda>p. real p"]
      main_usage_or_abort [of "[''mm'', ''abc'']" "world_of (\<lambda>k. k)" "\<lambda>p. real p"]
    by simp
qed

section \<open>The benchmark loops\<close>

text \<open>
  Claim C5. After a successful set-up, \<open>main\<close> runs the kernels in the order
  \<open>matrix_mult1\<close>, \<open>matrix_mult2\<close>, \<open>sparsematrix_mult\<close>, each \<open>NITERATIONS + 1 = 6\<close>
  times on its own accumulator, reads the clock 36 times, and prints exactly fifteen
  lines: for each kernel and each iteration 1 to 5, its label (\<open>mult1\<close>, \<open>mult2\<close>,
  \<open>sparsemult\<close>) and the difference of the two readings around the call. The readings
  around iteration 0 (the readings 0 and 1, 12 and 13, 24 and 25) are not printed.
\<close>

theorem driver_runs_and_prints:
  fixes w :: "('a::field) world"
  assumes "2 \<le> length argv" and "0 < atoi (argv ! 1)" and "n = nat (atoi (argv ! 1))"
      and "main_setup w n (profile_log (Profile_setup (num_procs w)) (initial h)) =
             Inr ((a1, a2, b, c1, c2, c3), s0)"
  shows "NITERATIONS + 1 = 6 \<and>
    main w argv h = (Exit EXIT_FAILURE,
      ((sparsematrix_mult c3 a2 b n ^^ (NITERATIONS + 1))
        ((matrix_mult2 c2 a1 b n ^^ (NITERATIONS + 1))
          ((matrix_mult1 c1 a1 b n ^^ (NITERATIONS + 1)) s0)))
      \<lparr>wtime_calls := 36,
       stdout :=
        [Timing_line ''mult1'' (wtime_seq w 3 - wtime_seq w 2),
         Timing_line ''mult1'' (wtime_seq w 5 - wtime_seq w 4),
         Timing_line ''mult1'' (wtime_seq w 7 - wtime_seq w 6),
         Timing_line ''mult1'' (wtime_seq w 9 - wtime_seq w 8),
         Timing_line ''mult1'' (wtime_seq w 11 - wtime_seq w 10),
         Timing_line ''mult2'' (wtime_seq w 15 - wtime_seq w 14),
         Timing_line ''mult2'' (wtime_seq w 17 - wtime_seq w 16),
         Timing_line ''mult2'' (wtime_seq w 19 - wtime_seq w 18),
         Timing_line ''mult2'' (wtime_seq w 21 - wtime_seq w 20),
         Timing_line ''mult2'' (wtime_seq w 23 - wtime_seq w 22),
         Timing_line ''sparsemult'' (wtime_seq w 27 - wtime_seq w 26),
         Timing_line ''sparsemult'' (wtime_seq w 29 - wtime_seq w 28),
         Timing_line ''sparsemult'' (wtime_seq w 31 - wtime_seq w 30),
         Timing_line ''sparsemult'' (wtime_seq w 33 - wtime_seq w 32),
         Timing_line ''sparsemult'' (wtime_seq w 35 - wtime_seq w 34)]\<rparr>)"
proof -
  have s: "main_setup w (nat (atoi (argv ! 1))) (profile_log (Profile_setup (num_procs w)) (initial h)) =
             Inr ((a1, a2, b, c1, c2, c3), s0)"
    using assms(3,4) by simp
  have six: "NITERATIONS + 1 = 6" by (simp add: NITERATIONS_def)
  show ?thesis
    unfolding six main_runs(1) [OF assms(1,2) s] main_benchmarks_eq main_runs(2,3) [OF assms(1,2) s]
      timing_lines_6 assms(3) [symmetric]
    by (simp add: eval_nat_numeral)
qed

theorem driver_runs_and_prints_witness:
  "fst (main (world_of (\<lambda>k. k)) [''mm'', ''1''] (\<lambda>p. real p)) = Exit EXIT_FAILURE \<and>
   stdout (snd (main (world_of (\<lambda>k. k)) [''mm'', ''1''] (\<lambda>p. real p))) =
     [Timing_line ''mult1'' 5, Timing_line ''mult1'' 9, Timing_line ''mult1'' 13,
      Timing_line ''mult1'' 17, Timing_line ''mult1'' 21,
      Timing_line ''mult2'' 29, Timing_line ''mult2'' 33, Timing_line ''mult2'' 37,
      Timing_line ''mult2'' 41, Timing_line ''mult2'' 45,
      Timing_line ''sparsemult'' 53, Timing_line ''sparsemult'' 57, Timing_line ''sparsemult'' 61,
      Timing_line ''sparsemult'' 65, Timing_line ''sparsemult'' 69]"
proof -
  let ?w = "world_of (\<lambda>k. k)"
  have a: "2 \<le> length [''mm'', ''1'']" "0 < atoi ([''mm'', ''1''] ! 1)" "1 = nat (atoi ([''mm'', ''1''] ! 1))"
    by (simp_all add: atoi_1)
  have t: "wtime_seq ?w k = real (k * k)" for k by (simp add: world_of_def)
  have r: "1 * 1 \<le> INT_MAX" by (simp add: INT_MAX_def)
  show ?thesis
    unfolding driver_runs_and_prints [OF a main_setup_world_of [OF r], THEN conjunct2] t by simp
qed

section \<open>The exit status\<close>

text \<open>
  Claim C9, as stated, fails: with an argument that \<open>atoi\<close> reads as \<open>n > 0\<close> and
  allocations that all succeed, the process is to run the benchmarks and end with
  \<open>EXIT_FAILURE\<close>. For \<open>./mm 65536\<close>, with a \<open>malloc\<close> that never fails, the product \<open>n*n\<close> of
  \<open>matrix_create\<close> is \<open>2\<^sup>3\<^sup>2\<close>, beyond \<open>INT_MAX\<close>: the behaviour is undefined from the first
  allocation on, and no benchmark is run.
\<close>

theorem large_size_overflows:
  "2 \<le> length [''mm'', ''65536''] \<and> 0 < atoi ([''mm'', ''65536''] ! 1) \<and>
   (\<forall>k len. malloc_seq (world_of (\<lambda>k. k)) k len \<noteq> None) \<and>
   main (world_of (\<lambda>k. k)) [''mm'', ''65536''] (\<lambda>p. real p) =
     (Undefined, profile_log (Profile_setup 1) (initial (\<lambda>p. real p)))"
proof -
  let ?w = "world_of (\<lambda>k. k)"
  have a: "atoi ''65536'' = 65536"
    by (simp add: atoi_def isspace_def isdigit_def)
  have s: "main_setup ?w 65536 st = Inl (Undefined, st)" for st
    by (rule main_setup_overflow) (simp add: INT_MAX_def)
  have p: "num_procs ?w = 1" and m: "\<forall>k len. malloc_seq ?w k len \<noteq> None"
    by (simp_all add: world_of_def)
  have "main ?w [''mm'', ''65536''] (\<lambda>p. real p) =
      (Undefined, profile_log (Profile_setup 1) (initial (\<lambda>p. real p)))"
    by (simp add: a main_def s p)
  with m show ?thesis by (simp add: a)
qed

text \<open>
  Claim C9, amended. With an argument that \<open>atoi\<close> reads as \<open>n > 0\<close>, with \<open>n*n\<close> at most
  \<open>INT_MAX\<close> (so \<open>n \<le> 46340\<close>) and six successful allocations of \<open>n*n\<close> cells, the process
  runs all three benchmarks (fifteen lines printed, 36 readings of the clock) and ends
  with the status \<open>EXIT_FAILURE\<close>, not with success.
\<close>

theorem success_path_exit_failure:
  fixes w :: "('a::field) world"
  assumes "2 \<le> length argv" and "0 < atoi (argv ! 1)"
      and "nat (atoi (argv ! 1)) * nat (atoi (argv ! 1)) \<le> INT_MAX"
      and "\<forall>k<6. malloc_seq w k (nat (atoi (argv ! 1)) * nat (atoi (argv ! 1))) \<noteq> None"
  shows "fst (main w argv h) = Exit EXIT_FAILURE \<and>
         length (stdout (snd (main w argv h))) = 15 \<and>
         wtime_calls (snd (main w argv h)) = 36"
proof -
  let ?n = "nat (atoi (argv ! 1))"
  let ?st = "profile_log (Profile_setup (num_procs w)) (initial h)"
  let ?M = "\<lambda>k. the (malloc_seq w k (?n * ?n))"
  have "\<forall>k<6. malloc_seq w (malloc_calls ?st + k) (?n * ?n) = Some (?M k)"
    using assms(4) by (simp add: profile_log_def initial_def)
  with assms(3) have s: "main_setup w ?n ?st =
      Inr ((?M 0, ?M 5, ?M 1, ?M 2, ?M 3, ?M 4), setup_state w ?n ?M ?st)"
    by (rule main_setup_explicit)
  have l: "length (timing_lines w label t 6) = 5" for label t
    by (simp add: timing_lines_def)
  show ?thesis
    unfolding main_runs(1) [OF assms(1,2) s] main_benchmarks_eq main_runs(2,3) [OF assms(1,2) s]
    by (simp add: l)
qed

theorem success_path_exit_failure_witness:
  "fst (main (world_of (\<lambda>k. k)) [''mm'', ''1''] (\<lambda>p. real p)) = Exit EXIT_FAILURE \<and>
   length (stdout (snd (main (world_of (\<lambda>k. k)) [''mm'', ''1''] (\<lambda>p. real p)))) = 15 \<and>
   wtime_calls (snd (main (world_of (\<lambda>k. k)) [''mm'', ''1''] (\<lambda>p. real p))) = 36"
proof -
  have a: "2 \<le> length [''mm'', ''1'']" "0 < atoi ([''mm'', ''1''] ! 1)"
    by (simp_all add: atoi_1)
  have r: "nat (atoi ([''mm'', ''1''] ! 1)) * nat (atoi ([''mm'', ''1''] ! 1)) \<le> INT_MAX"
    by (simp add: atoi_1 INT_MAX_def)
  have m: "\<forall>k<6. malloc_seq (world_of (\<lambda>k. k)) k
      (nat (atoi ([''mm'', ''1''] ! 1)) * nat (atoi ([''mm'', ''1''] ! 1))) \<noteq> None"
    by (simp add: world_of_def)
  show ?thesis by (rule success_path_exit_failure [OF a r m])
qed

section \<open>The accumulators before the first run\<close>

text \<open>
  Claim C10, as stated, fails: the accumulators are to hold non-zero values when the
  benchmark loops start, so that no run computes a plain product from a zeroed
  accumulator. \<open>rand()\<close> may return \<open>0\<close>, and \<open>0/10.0\<close> is zero. With \<open>n = 1\<close> and a third
  draw that is \<open>0\<close> (the others are \<open>7\<close>), \<open>c1\<close> holds zero after the set-up, and the first
  call of \<open>matrix_mult1\<close> leaves the plain product \<open>a1[0][0] * b[0][0]\<close> there.
\<close>

theorem zero_draw_zero_accumulator:
  "\<exists>s. main_setup (world_of (\<lambda>k. if k = 2 then 0 else 7)) 1
          (profile_log (Profile_setup 1) counting) = Inr ((0, 5, 1, 2, 3, 4), s) \<and>
     load s (MATRIX 1 2 0 0) = 0 \<and>
     load (matrix_mult1 2 0 1 1 s) (MATRIX 1 2 0 0) =
       load s (MATRIX 1 0 0 0) * load s (MATRIX 1 1 0 0)"
proof -
  let ?w = "world_of (\<lambda>k. if k = 2 then 0 else 7)"
  let ?st = "profile_log (Profile_setup 1) counting"
  let ?s = "setup_state ?w 1 (\<lambda>k. k) ?st"
  have r: "1 * 1 \<le> INT_MAX" by (simp add: INT_MAX_def)
  have m: "\<forall>k<6. malloc_seq ?w (malloc_calls ?st + k) (1 * 1) = Some k"
    by (simp add: world_of_def profile_log_def counting_def initial_def)
  have s: "main_setup ?w 1 ?st = Inr ((0, 5, 1, 2, 3, 4), ?s)"
    using main_setup_explicit [OF r m] by simp
  have d: "\<forall>k<6. \<forall>l<6. k \<noteq> l \<longrightarrow> block 1 k \<inter> block 1 l = {}"
    by (simp add: block_def)
  have "load ?s (MATRIX 1 2 0 0) = drawn ?w (rand_calls ?st + 2 * (1 * 1) + (0 * 1 + 0))"
    by (rule setup_state_cells(1) [OF d]) simp_all
  then have z: "load ?s (MATRIX 1 2 0 0) = 0"
    by (simp add: drawn_def world_of_def profile_log_def counting_def initial_def)
  have e: "block 1 2 \<inter> block 1 0 = {}" "block 1 2 \<inter> block 1 1 = {}"
    by (simp_all add: block_def)
  have "load (matrix_mult1 2 0 1 1 ?s) (MATRIX 1 2 0 0) =
      accumulate ?s 0 1 1 0 0 (load ?s (MATRIX 1 2 0 0))"
    using matrix_mult1_rows [OF e, of ?s] by (simp add: rows_done_def)
  then have "load (matrix_mult1 2 0 1 1 ?s) (MATRIX 1 2 0 0) =
      load ?s (MATRIX 1 0 0 0) * load ?s (MATRIX 1 1 0 0)"
    using z by (simp add: accumulate_def)
  with s z show ?thesis by blast
qed

text \<open>
  Claim C10, amended. In \<open>main\<close>, when the set-up is over and before any benchmark loop
  runs, each cell of \<open>c1\<close>, \<open>c2\<close> and \<open>c3\<close> holds the value \<open>rand()/10.0\<close> that \<open>matrix_init\<close>
  stored there (the draws number \<open>2n\<^sup>2 + i n + j\<close>, \<open>3n\<^sup>2 + i n + j\<close> and \<open>4n\<^sup>2 + i n + j\<close>
  from the start of the set-up) and not the zero of \<open>matrix_create\<close>; it is zero exactly
  when that draw is \<open>0\<close>. Every call of a kernel, the first, warm-up one included,
  accumulates onto these contents: after \<open>it\<close> calls the cell holds what is got from its
  draw by adding the products of the row and the column to it, in order, \<open>it\<close> times
  over. So a run starts from a zeroed cell only where \<open>rand()\<close> returned \<open>0\<close>. Here \<open>n*n\<close>
  is at most \<open>INT_MAX\<close>, the six allocations succeed and their blocks do not overlap; no
  law of arithmetic is assumed for the kernels.
\<close>

theorem accumulators_hold_draws:
  fixes st :: "('a::field_char_0) machine"
  assumes "n * n \<le> INT_MAX"
      and "\<forall>k<6. malloc_seq w (malloc_calls st + k) (n * n) = Some (M k)"
      and "\<forall>k<6. \<forall>l<6. k \<noteq> l \<longrightarrow> block n (M k) \<inter> block n (M l) = {}"
      and "i < n" and "j < n"
  shows "\<exists>s. main_setup w n st = Inr ((M 0, M 5, M 1, M 2, M 3, M 4), s) \<and>
     load s (MATRIX n (M 2) i j) = of_nat (rand_seq w (rand_calls st + 2 * (n * n) + (i * n + j))) / 10 \<and>
     load s (MATRIX n (M 3) i j) = of_nat (rand_seq w (rand_calls st + 3 * (n * n) + (i * n + j))) / 10 \<and>
     load s (MATRIX n (M 4) i j) = of_nat (rand_seq w (rand_calls st + 4 * (n * n) + (i * n + j))) / 10 \<and>
     (load s (MATRIX n (M 2) i j) = 0) = (rand_seq w (rand_calls st + 2 * (n * n) + (i * n + j)) = 0) \<and>
     (load s (MATRIX n (M 3) i j) = 0) = (rand_seq w (rand_calls st + 3 * (n * n) + (i * n + j)) = 0) \<and>
     (load s (MATRIX n (M 4) i j) = 0) = (rand_seq w (rand_calls st + 4 * (n * n) + (i * n + j)) = 0) \<and>
     load ((matrix_mult1 (M 2) (M 0) (M 1) n ^^ it) s) (MATRIX n (M 2) i j) =
       (accumulate s (M 0) (M 1) n i j ^^ it) (load s (MATRIX n (M 2) i j)) \<and>
     load ((matrix_mult2 (M 3) (M 0) (M 1) n ^^ it) s) (MATRIX n (M 3) i j) =
       (accumulate s (M 0) (M 1) n i j ^^ it) (load s (MATRIX n (M 3) i j)) \<and>
     load ((sparsematrix_mult (M 4) (M 5) (M 1) n ^^ it) s) (MATRIX n (M 4) i j) =
       (accumulate_sparse s (M 5) (M 1) n i j ^^ it) (load s (MATRIX n (M 4) i j))"
proof -
  let ?s = "setup_state w n M st"
  have d: "block n (M k) \<inter> block n (M l) = {}" if "k < 6" "l < 6" "k \<noteq> l" for k l
    using assms(3) that by simp
  have d1: "block n (M 2) \<inter> block n (M 0) = {}" "block n (M 2) \<inter> block n (M 1) = {}"
    and d2: "block n (M 3) \<inter> block n (M 0) = {}" "block n (M 3) \<inter> block n (M 1) = {}"
    and d3: "block n (M 4) \<inter> block n (M 5) = {}" "block n (M 4) \<inter> block n (M 1) = {}"
    by (simp_all add: d)
  have r1: "rows_done (\<lambda>s. accumulate s (M 0) (M 1) n) s
      (matrix_mult1 (M 2) (M 0) (M 1) n s) (M 2) n n" for s :: "'a machine"
    by (intro matrix_mult1_rows d1)
  have r2: "rows_done (\<lambda>s. accumulate s (M 0) (M 1) n) s
      (matrix_mult2 (M 3) (M 0) (M 1) n s) (M 3) n n" for s :: "'a machine"
    by (intro matrix_mult2_rows d2)
  have r3: "rows_done (\<lambda>s. accumulate_sparse s (M 5) (M 1) n) s
      (sparsematrix_mult (M 4) (M 5) (M 1) n s) (M 4) n n" for s :: "'a machine"
    by (intro sparsematrix_mult_rows d3)
  have 1: "load ((matrix_mult1 (M 2) (M 0) (M 1) n ^^ it) ?s) (MATRIX n (M 2) i j) =
       (accumulate ?s (M 0) (M 1) n i j ^^ it) (load ?s (MATRIX n (M 2) i j))"
    using rows_done_funpow [OF r1 accumulate_reads_outside [OF d1], of it ?s] assms(4,5)
    by simp
  have 2: "load ((matrix_mult2 (M 3) (M 0) (M 1) n ^^ it) ?s) (MATRIX n (M 3) i j) =
       (accumulate ?s (M 0) (M 1) n i j ^^ it) (load ?s (MATRIX n (M 3) i j))"
    using rows_done_funpow [OF r2 accumulate_reads_outside [OF d2], of it ?s] assms(4,5)
    by simp
  have 3: "load ((sparsematrix_mult (M 4) (M 5) (M 1) n ^^ it) ?s) (MATRIX n (M 4) i j) =
       (accumulate_sparse ?s (M 5) (M 1) n i j ^^ it) (load ?s (MATRIX n (M 4) i j))"
    using rows_done_funpow [OF r3 accumulate_sparse_reads_outside [OF d3], of it ?s] assms(4,5)
    by simp
  note c = setup_state_cells [OF assms(3,4,5), of w st]
  show ?thesis
  proof (intro exI [of _ ?s] conjI)
    show "main_setup w n st = Inr ((M 0, M 5, M 1, M 2, M 3, M 4), ?s)"
      using assms(1,2) by (rule main_setup_explicit)
    show "load ((matrix_mult1 (M 2) (M 0) (M 1) n ^^ it) ?s) (MATRIX n (M 2) i j) =
       (accumulate ?s (M 0) (M 1) n i j ^^ it) (load ?s (MATRIX n (M 2) i j))" by (rule 1)
    show "load ((matrix_mult2 (M 3) (M 0) (M 1) n ^^ it) ?s) (MATRIX n (M 3) i j) =
       (accumulate ?s (M 0) (M 1) n i j ^^ it) (load ?s (MATRIX n (M 3) i j))" by (rule 2)
    show "load ((sparsematrix_mult (M 4) (M 5) (M 1) n ^^ it) ?s) (MATRIX n (M 4) i j) =
       (accumulate_sparse ?s (M 5) (M 1) n i j ^^ it) (load ?s (MATRIX n (M 4) i j))" by (rule 3)
  qed (simp_all add: c drawn_zero, simp_all add: drawn_def)
qed

theorem accumulators_hold_draws_witness:
  "\<exists>s. main_setup (world_of Suc) 2 counting = Inr ((0, 20, 4, 8, 12, 16), s) \<and>
     load s (MATRIX 2 8 1 0) = 11 / 10 \<and>
     load s (MATRIX 2 12 1 0) = 15 / 10 \<and>
     load s (MATRIX 2 16 1 0) = 19 / 10 \<and>
     load (matrix_mult1 8 0 4 2 s) (MATRIX 2 8 1 0) =
       11 / 10 + load s (MATRIX 2 0 1 0) * load s (MATRIX 2 4 0 0) +
         load s (MATRIX 2 0 1 1) * load s (MATRIX 2 4 1 0)"
proof -
  have h0: "2 * 2 \<le> INT_MAX" by (simp add: INT_MAX_def)
  have h1: "\<forall>k<6. malloc_seq (world_of Suc) (malloc_calls counting + k) (2 * 2) = Some (k * 4)"
    by (simp add: world_of_def counting_def initial_def)
  have h2: "\<forall>k<6. \<forall>l<6. k \<noteq> l \<longrightarrow> block 2 (k * 4) \<inter> block 2 (l * 4) = {}"
    by (auto simp: block_def)
  have h3: "(1::nat) < 2" "(0::nat) < 2" by simp_all
  have v: "rand_seq (world_of Suc) k = Suc k" "rand_calls counting = 0" for k
    by (simp_all add: world_of_def counting_def initial_def)
  show ?thesis
    using accumulators_hold_draws [OF h0 h1 h2 h3, of 1]
    apply (elim exE conjE)
    subgoal for s by (rule exI [of _ s]) (simp add: v accumulate_def eval_nat_numeral)
    done
qed

end
